theory Spec2Isabelle
  imports Complex_Main "HOL-Library.Option_ord"
begin

section \<open>Python strings\<close>

text \<open>
  A Python \<open>str\<close> is modelled as the list of its Unicode code points, so that
  \<open>len\<close>, slicing, \<open>in\<close> and the Hangul keywords of \<open>config/constants.py\<close> mean
  what they mean in the source. \<open>str\<close> turns an ASCII literal into such a list.
\<close>

type_synonym pystr = "nat list"

definition str :: "string \<Rightarrow> pystr" where
  "str s = map of_char s"

text \<open>
  \<open>str.isspace\<close> for one code point; the regular expression class \<open>\s\<close> of a
  \<open>str\<close> pattern and \<open>str.strip()\<close> use the same set.
\<close>

definition is_space :: "nat \<Rightarrow> bool" where
  "is_space c \<longleftrightarrow>
     (9 \<le> c \<and> c \<le> 13) \<or> (28 \<le> c \<and> c \<le> 32) \<or> c = 0x85 \<or> c = 0xA0 \<or> c = 0x1680 \<or>
     (0x2000 \<le> c \<and> c \<le> 0x200A) \<or> c = 0x2028 \<or> c = 0x2029 \<or> c = 0x202F \<or>
     c = 0x205F \<or> c = 0x3000"

definition is_digit :: "nat \<Rightarrow> bool" where
  "is_digit c \<longleftrightarrow> 48 \<le> c \<and> c \<le> 57"

text \<open>\<open>s.strip()\<close>\<close>

definition strip :: "pystr \<Rightarrow> pystr" where
  "strip s = rev (dropWhile is_space (rev (dropWhile is_space s)))"

text \<open>
  \<open>s.lower()\<close>. The ASCII capitals are mapped to their small letters, and so are the
  only two other code points whose lower case contains an ASCII letter (U+0130 and the
  Kelvin sign U+212A). Python also maps the remaining cased letters beyond ASCII to
  their lower-case forms, all of them outside ASCII and outside Hangul; the model leaves
  those in place, which changes no test of this development: every string compared
  with a lowered one here is an ASCII or Hangul keyword.
\<close>

definition lower_cp :: "nat \<Rightarrow> pystr" where
  "lower_cp c =
     (if 65 \<le> c \<and> c \<le> 90 then [c + 32]
      else if c = 0x130 then [0x69, 0x307]
      else if c = 0x212A then [0x6B]
      else [c])"

definition lower :: "pystr \<Rightarrow> pystr" where
  "lower s = concat (map lower_cp s)"

text \<open>\<open>s.startswith(k)\<close> and \<open>k in s\<close>\<close>

fun starts_with :: "pystr \<Rightarrow> pystr \<Rightarrow> bool" where
  "starts_with s [] = True"
| "starts_with [] (k # ks) = False"
| "starts_with (c # cs) (k # ks) = (c = k \<and> starts_with cs ks)"

fun contains :: "pystr \<Rightarrow> pystr \<Rightarrow> bool" where
  "contains [] k = (k = [])"
| "contains (c # cs) k = (starts_with (c # cs) k \<or> contains cs k)"

text \<open>\<open>any(k in s for k in keywords)\<close>\<close>

definition any_in :: "pystr list \<Rightarrow> pystr \<Rightarrow> bool" where
  "any_in keywords s = list_ex (\<lambda>k. contains s k) keywords"


section \<open>Constants (\<open>config/constants.py\<close>)\<close>

definition STANDARD_DISTANCES :: "rat list" where
  "STANDARD_DISTANCES = [5.0, 10.0, 21.1, 42.2, 50.0, 100.0, 109.0]"

text \<open>
  \<open>DISTANCE_TOLERANCE\<close>, in the insertion order of the dictionary. The upper bound
  \<open>float('inf')\<close> of the first key is \<open>None\<close>.
\<close>

definition DISTANCE_TOLERANCE :: "((rat \<times> rat option) \<times> rat) list" where
  "DISTANCE_TOLERANCE =
     [((40, None), 3),
      ((20, Some 40), 0.8),
      ((15, Some 20), 0.8),
      ((10, Some 15), 1.0),
      ((5, Some 10), 0.6),
      ((0, Some 5), 0.4)]"

text \<open>
  \<open>FINISH_KEYWORDS_KO = ("\<dots>", \<dots>)\<close>: the five Hangul words, by code point
  (do-chak, wan-ju, gol-in, gyeol-seung, pi-ni-si).
\<close>

definition FINISH_KEYWORDS_KO :: "pystr list" where
  "FINISH_KEYWORDS_KO =
     [[0xB3C4, 0xCC29], [0xC644, 0xC8FC], [0xACE8, 0xC778], [0xACB0, 0xC2B9],
      [0xD53C, 0xB2C8, 0xC2DC]]"

definition FINISH_KEYWORDS_EN :: "pystr list" where
  "FINISH_KEYWORDS_EN = [str ''finish'', str ''goal'', str ''completed'', str ''end'']"


section \<open>Distances and labels (\<open>utils/distance_utils.py\<close>)\<close>

text \<open>
  One split as the parsers produce it: a dictionary with the keys below, each of which
  may be missing or \<open>None\<close>. The splits of a list are distinct objects (every parser
  appends a fresh dictionary per row), so a list of values models the list of
  dictionaries.
\<close>

record split_rec =
  point_label :: "pystr option"
  point_km :: "rat option"
  net_time :: "pystr option"
  pass_clock :: "pystr option"
  pace :: "pystr option"

text \<open>\<open>min(xs, key=f)\<close>: the first element with the least key; \<open>None\<close> stands for the
  \<open>ValueError\<close> on an empty list.\<close>

fun min_key_from :: "('a \<Rightarrow> rat) \<Rightarrow> 'a \<Rightarrow> 'a list \<Rightarrow> 'a" where
  "min_key_from f b [] = b"
| "min_key_from f b (x # xs) = min_key_from f (if f x < f b then x else b) xs"

definition min_key :: "'a list \<Rightarrow> ('a \<Rightarrow> rat) \<Rightarrow> 'a option" where
  "min_key xs f = (case xs of [] \<Rightarrow> None | x # ys \<Rightarrow> Some (min_key_from f x ys))"

text \<open>
  \<open>snap_distance(km)\<close>. Floats are modelled as rationals. \<open>not km\<close> holds for \<open>None\<close>
  and for \<open>0.0\<close>.
\<close>

definition snap_distance :: "rat option \<Rightarrow> rat option" where
  "snap_distance km =
     (case km of
        None \<Rightarrow> None
      | Some k \<Rightarrow>
          if k = 0 \<or> k \<le> 0 then None
          else (case min_key STANDARD_DISTANCES (\<lambda>d. \<bar>d - k\<bar>) of
                  None \<Rightarrow> None
                | Some best \<Rightarrow> if \<bar>best - k\<bar> \<le> 0.6 then Some best else Some k))"

text \<open>
  \<open>_clean_text(s)\<close>: the zero-width code points are removed, U+00A0 becomes a space,
  the string is stripped, and every run of white space becomes one space. The argument
  is \<open>None\<close> when the Python value is not a \<open>str\<close>.
\<close>

definition is_zwsp :: "nat \<Rightarrow> bool" where
  "is_zwsp c \<longleftrightarrow> c = 0x200B \<or> c = 0x200C \<or> c = 0x200D \<or> c = 0xFEFF"

fun collapse_ws_from :: "bool \<Rightarrow> pystr \<Rightarrow> pystr" where
  "collapse_ws_from in_run [] = []"
| "collapse_ws_from in_run (c # cs) =
     (if is_space c
      then (if in_run then collapse_ws_from True cs else 32 # collapse_ws_from True cs)
      else c # collapse_ws_from False cs)"

definition collapse_ws :: "pystr \<Rightarrow> pystr" where
  "collapse_ws s = collapse_ws_from False s"

definition clean_text :: "pystr option \<Rightarrow> pystr" where
  "clean_text s =
     (case s of
        None \<Rightarrow> []
      | Some t \<Rightarrow>
          collapse_ws (strip (map (\<lambda>c. if c = 0xA0 then 32 else c)
                                  (filter (\<lambda>c. \<not> is_zwsp c) t))))"

definition is_finish_label :: "pystr option \<Rightarrow> bool" where
  "is_finish_label label =
     (let raw = clean_text label; low = lower raw
      in any_in FINISH_KEYWORDS_KO raw \<or> any_in FINISH_KEYWORDS_EN low)"

text \<open>\<open>x or ""\<close> for an optional string\<close>

definition or_empty :: "pystr option \<Rightarrow> pystr" where
  "or_empty x = (case x of None \<Rightarrow> [] | Some t \<Rightarrow> t)"

text \<open>
  \<open>ensure_finish_label(splits, race_total_km)\<close>. The source changes
  \<open>last["point_label"]\<close> in place and returns the same list; the model returns the
  list with its last element replaced. \<open>if race_total_km:\<close> is false for \<open>None\<close> and
  for \<open>0.0\<close>.
\<close>

definition set_last_label :: "split_rec list \<Rightarrow> pystr \<Rightarrow> split_rec list" where
  "set_last_label splits l =
     butlast splits @ [(last splits)\<lparr>point_label := Some l\<rparr>]"

definition ensure_finish_label :: "split_rec list \<Rightarrow> rat option \<Rightarrow> split_rec list" where
  "ensure_finish_label splits race_total_km =
     (if splits = [] then splits
      else
        let lst = last splits;
            label = clean_text (Some (or_empty (point_label lst)))
        in if is_finish_label (Some label) then splits
           else
             let kmf = point_km lst;
                 target = (case race_total_km of
                             None \<Rightarrow> None
                           | Some t \<Rightarrow> if t \<noteq> 0 then Some t else None)
             in (case (target, kmf) of
                   (Some t, Some k) \<Rightarrow>
                     if k \<ge> t - 1.0 then set_last_label splits (str ''Finish'') else splits
                 | (None, Some k) \<Rightarrow>
                     if 41.5 \<le> k \<and> k \<le> 43.0 then set_last_label splits (str ''Finish'')
                     else splits
                 | _ \<Rightarrow> splits))"



text \<open>
  \<open>km_from_label(label)\<close>. The first regular expression,
  \<open>(\d+(?:\.\d+)?)\s*km\<close> with \<open>re.I\<close>, is searched from the left; at one
  starting point the digits, the fraction and the white space are taken greedily, and
  no shorter choice can succeed where the greedy one fails (what follows a shortened
  run is a digit or the dot). Under \<open>re.I\<close> the letter \<open>k\<close> also matches the Kelvin
  sign. \<open>\d\<close> is modelled on the ASCII digits; a label written with other Unicode
  decimal digits is outside the model.
\<close>

definition digits_val :: "pystr \<Rightarrow> nat" where
  "digits_val ds = foldl (\<lambda>acc c. acc * 10 + (c - 48)) 0 ds"

text \<open>\<open>float("ip.fp")\<close> for two runs of digits\<close>

definition decimal_val :: "pystr \<Rightarrow> pystr \<Rightarrow> rat" where
  "decimal_val ip fp = of_nat (digits_val ip) + of_nat (digits_val fp) / 10 ^ length fp"

definition is_km :: "pystr \<Rightarrow> bool" where
  "is_km r =
     (case r of
        a # b # _ \<Rightarrow> (a = 107 \<or> a = 75 \<or> a = 0x212A) \<and> (b = 109 \<or> b = 77)
      | _ \<Rightarrow> False)"

text \<open>The group \<open>(\d+(?:\.\d+)?)\<close> at the head of a string: the integer digits, the
  fraction digits and the rest.\<close>

definition number_prefix :: "pystr \<Rightarrow> (pystr \<times> pystr \<times> pystr) option" where
  "number_prefix s =
     (let ip = takeWhile is_digit s; r = dropWhile is_digit s
      in if ip = [] then None
         else (case r of
                 c # f \<Rightarrow>
                   if c = 46 \<and> takeWhile is_digit f \<noteq> []
                   then Some (ip, takeWhile is_digit f, dropWhile is_digit f)
                   else Some (ip, [], r)
               | [] \<Rightarrow> Some (ip, [], r)))"

definition km_match_here :: "pystr \<Rightarrow> rat option" where
  "km_match_here s =
     (case number_prefix s of
        None \<Rightarrow> None
      | Some (ip, fp, r) \<Rightarrow>
          if is_km (dropWhile is_space r) then Some (decimal_val ip fp) else None)"

fun km_search :: "pystr \<Rightarrow> rat option" where
  "km_search [] = None"
| "km_search (c # cs) =
     (case km_match_here (c # cs) of
        Some v \<Rightarrow> Some v
      | None \<Rightarrow> km_search cs)"

text \<open>\<open>re.fullmatch(r"(\d+(?:\.\d+)?)", s)\<close>\<close>

definition km_fullmatch :: "pystr \<Rightarrow> rat option" where
  "km_fullmatch s =
     (case number_prefix s of
        None \<Rightarrow> None
      | Some (ip, fp, r) \<Rightarrow> if r = [] then Some (decimal_val ip fp) else None)"

definition km_from_label :: "pystr \<Rightarrow> rat option" where
  "km_from_label label =
     (if label = [] then None
      else (case km_search label of
              Some v \<Rightarrow> Some v
            | None \<Rightarrow> km_fullmatch (strip label)))"


section \<open>Times (\<open>utils/time_utils.py\<close>)\<close>

text \<open>
  \<open>TIME_RX = \b\d{1,2}:\d{2}(?::\d{2}(?:\.\d{1,3})?)?\b\<close>. A word character
  (\<open>\w\<close>) is an ASCII letter, digit or underscore; beyond ASCII, where Python asks
  the Unicode database, the model counts every code point that is neither white space
  nor zero-width as a word character. No property below depends on that choice.
\<close>

definition is_word :: "nat \<Rightarrow> bool" where
  "is_word c \<longleftrightarrow>
     is_digit c \<or> (65 \<le> c \<and> c \<le> 90) \<or> (97 \<le> c \<and> c \<le> 122) \<or> c = 95 \<or>
     (128 \<le> c \<and> \<not> is_space c \<and> \<not> is_zwsp c)"

text \<open>\<open>\b\<close> after a word character: the end of the string, or a character that is
  not a word character.\<close>

definition boundary_after_word :: "pystr \<Rightarrow> bool" where
  "boundary_after_word rest = (case rest of [] \<Rightarrow> True | c # _ \<Rightarrow> \<not> is_word c)"

text \<open>\<open>\d{1,3}\b\<close> after the dot\<close>

definition frac_ok :: "pystr \<Rightarrow> bool" where
  "frac_ok t =
     (case t of
        [] \<Rightarrow> False
      | d1 # r1 \<Rightarrow>
          is_digit d1 \<and>
          (boundary_after_word r1 \<or>
           (case r1 of
              [] \<Rightarrow> False
            | d2 # r2 \<Rightarrow>
                is_digit d2 \<and>
                (boundary_after_word r2 \<or>
                 (case r2 of
                    [] \<Rightarrow> False
                  | d3 # r3 \<Rightarrow> is_digit d3 \<and> boundary_after_word r3)))))"

text \<open>\<open>(?::\d{2}(?:\.\d{1,3})?)?\b\<close> after the minutes\<close>

definition time_tail_ok :: "pystr \<Rightarrow> bool" where
  "time_tail_ok t =
     (boundary_after_word t \<or>
      (case t of
         c # d1 # d2 # r \<Rightarrow>
           c = 58 \<and> is_digit d1 \<and> is_digit d2 \<and>
           (boundary_after_word r \<or> (case r of [] \<Rightarrow> False | p # f \<Rightarrow> p = 46 \<and> frac_ok f))
       | _ \<Rightarrow> False))"

text \<open>\<open>:\d{2}\<close> and the tail\<close>

definition minutes_ok :: "pystr \<Rightarrow> bool" where
  "minutes_ok r =
     (case r of
        c # m1 # m2 # t \<Rightarrow> c = 58 \<and> is_digit m1 \<and> is_digit m2 \<and> time_tail_ok t
      | _ \<Rightarrow> False)"

text \<open>The pattern after its leading \<open>\b\<close>, at the head of a string\<close>

definition time_match_here :: "pystr \<Rightarrow> bool" where
  "time_match_here s =
     (case s of
        [] \<Rightarrow> False
      | d1 # r \<Rightarrow>
          is_digit d1 \<and>
          (minutes_ok r \<or> (case r of [] \<Rightarrow> False | d2 # r2 \<Rightarrow> is_digit d2 \<and> minutes_ok r2)))"

text \<open>\<open>TIME_RX.search(s)\<close>: some position, not preceded by a word character, where
  the pattern matches\<close>

fun time_search_from :: "bool \<Rightarrow> pystr \<Rightarrow> bool" where
  "time_search_from prev_word [] = False"
| "time_search_from prev_word (c # cs) =
     ((\<not> prev_word \<and> time_match_here (c # cs)) \<or> time_search_from (is_word c) cs)"

definition looks_time :: "pystr \<Rightarrow> bool" where
  "looks_time text = (if text = [] then False else time_search_from False text)"

text \<open>\<open>s.split(":")\<close> for a separator of one character\<close>

fun split_on :: "nat \<Rightarrow> pystr \<Rightarrow> pystr list" where
  "split_on sep [] = [[]]"
| "split_on sep (c # cs) =
     (if c = sep then [] # split_on sep cs
      else (case split_on sep cs of
              [] \<Rightarrow> [[c]]
            | p # ps \<Rightarrow> (c # p) # ps))"

text \<open>
  \<open>int(s)\<close> and \<open>float(s)\<close>, with \<open>None\<close> for \<open>ValueError\<close>. The text is stripped; a
  sign may come first; digits may be grouped by single underscores. \<open>float\<close> also
  reads a fraction and an exponent. A text that \<open>float\<close> reads as infinity or as not
  a number is answered with \<open>None\<close> as well, because \<open>round\<close> raises on those values
  and \<open>sec_from_mmss\<close>, the only caller, catches every exception. Digits are the
  ASCII digits. A float is modelled by the rational number it stands for: this is exact
  for the integers below \<open>2 ^ 53\<close> and their sums below that bound, and an
  idealisation where a double would round.
\<close>

fun int_digits :: "pystr \<Rightarrow> pystr option" where
  "int_digits [] = None"
| "int_digits [c] = (if is_digit c then Some [c] else None)"
| "int_digits (c # d # r) =
     (if is_digit c
      then (if d = 95 then map_option (Cons c) (int_digits r)
            else map_option (Cons c) (int_digits (d # r)))
      else None)"

definition split_sign :: "pystr \<Rightarrow> bool \<times> pystr" where
  "split_sign t =
     (case t of
        [] \<Rightarrow> (False, t)
      | c # r \<Rightarrow> if c = 45 then (True, r) else if c = 43 then (False, r) else (False, t))"

definition signed_digits :: "pystr \<Rightarrow> int option" where
  "signed_digits t =
     (case split_sign t of
        (neg, body) \<Rightarrow>
          (case int_digits body of
             None \<Rightarrow> None
           | Some ds \<Rightarrow> Some (if neg then - int (digits_val ds) else int (digits_val ds))))"

definition py_int :: "pystr \<Rightarrow> int option" where
  "py_int s = signed_digits (strip s)"

text \<open>The text before the first character satisfying \<open>P\<close>, and the text after it if
  there is one\<close>

definition cut_at :: "(nat \<Rightarrow> bool) \<Rightarrow> pystr \<Rightarrow> pystr \<times> pystr option" where
  "cut_at P s =
     (takeWhile (\<lambda>c. \<not> P c) s,
      (case dropWhile (\<lambda>c. \<not> P c) s of [] \<Rightarrow> None | _ # r \<Rightarrow> Some r))"

definition mantissa :: "pystr \<Rightarrow> rat option" where
  "mantissa m =
     (case cut_at (\<lambda>c. c = 46) m of
        (ip, None) \<Rightarrow> map_option (\<lambda>ds. decimal_val ds []) (int_digits ip)
      | (ip, Some fp) \<Rightarrow>
          if ip = [] then map_option (\<lambda>fs. decimal_val [] fs) (int_digits fp)
          else if fp = [] then map_option (\<lambda>ds. decimal_val ds []) (int_digits ip)
          else (case (int_digits ip, int_digits fp) of
                  (Some ds, Some fs) \<Rightarrow> Some (decimal_val ds fs)
                | _ \<Rightarrow> None))"

text \<open>The rationals that round to a finite double\<close>

definition float_finite :: "rat \<Rightarrow> bool" where
  "float_finite x \<longleftrightarrow> \<bar>x\<bar> < 2 ^ 1024 - 2 ^ 970"

definition py_float :: "pystr \<Rightarrow> rat option" where
  "py_float s =
     (case split_sign (strip s) of
        (neg, body) \<Rightarrow>
          (case cut_at (\<lambda>c. c = 101 \<or> c = 69) body of
             (m, ex) \<Rightarrow>
               (case (mantissa m, (case ex of None \<Rightarrow> Some 0 | Some e \<Rightarrow> signed_digits e)) of
                  (Some v, Some e) \<Rightarrow>
                    (let x = (if neg then - v else v) * (if e < 0 then 1 / 10 ^ nat (- e) else 10 ^ nat e)
                     in if float_finite x then Some x else None)
                | _ \<Rightarrow> None)))"

text \<open>\<open>round(x)\<close> of a float: to the nearest integer, a tie to the even one\<close>

definition py_round :: "rat \<Rightarrow> int" where
  "py_round x =
     (let f = \<lfloor>x\<rfloor>; d = x - of_int f
      in if d < 1 / 2 then f else if 1 / 2 < d then f + 1 else if even f then f else f + 1)"

text \<open>
  \<open>int(round(n + s))\<close> for an integer \<open>n\<close> and a float \<open>s\<close>: the integer is
  converted to a float (\<open>OverflowError\<close> when it is too large), and \<open>round\<close> raises
  when the sum has overflowed to infinity.
\<close>

definition round_seconds :: "int \<Rightarrow> rat \<Rightarrow> int option" where
  "round_seconds n s =
     (if float_finite (of_int n) \<and> float_finite (of_int n + s)
      then Some (py_round (of_int n + s)) else None)"

text \<open>\<open>sec_from_mmss(mmss)\<close>; every exception ends in \<open>None\<close>, and so does a text with
  one part or with more than three.\<close>

definition sec_from_mmss :: "pystr option \<Rightarrow> int option" where
  "sec_from_mmss mmss =
     (case mmss of
        None \<Rightarrow> None
      | Some u \<Rightarrow>
          if u = [] then None
          else (case split_on 58 (strip u) of
                  [p0, p1, p2] \<Rightarrow>
                    (case (py_int p0, py_int p1, py_float p2) of
                       (Some h, Some m, Some s) \<Rightarrow> round_seconds (h * 3600 + m * 60) s
                     | _ \<Rightarrow> None)
                | [p0, p1] \<Rightarrow>
                    (case (py_int p0, py_float p1) of
                       (Some m, Some s) \<Rightarrow> round_seconds (m * 60) s
                     | _ \<Rightarrow> None)
                | _ \<Rightarrow> None))"

text \<open>
  The formatting of a number of seconds in \<open>calculate_prediction\<close>
  (\<open>webapp/services/prediction.py\<close>):
  \<open>h, m, s = fin_net // 3600, (fin_net % 3600) // 60, fin_net % 60\<close> and
  \<open>fin_net_str = f"{h}:{m:02d}:{s:02d}" if h > 0 else f"{m:02d}:{s:02d}"\<close>.
\<close>

fun str_nat :: "nat \<Rightarrow> pystr" where
  "str_nat n = (if n < 10 then [48 + n] else str_nat (n div 10) @ [48 + n mod 10])"

text \<open>\<open>f"{n}"\<close> and \<open>f"{n:02d}"\<close> for an integer\<close>

definition str_int :: "int \<Rightarrow> pystr" where
  "str_int n = (if n < 0 then 45 # str_nat (nat (- n)) else str_nat (nat n))"

definition fmt_02d :: "int \<Rightarrow> pystr" where
  "fmt_02d n = (if length (str_int n) < 2 then 48 # str_int n else str_int n)"

definition fin_net_str :: "int \<Rightarrow> pystr" where
  "fin_net_str fin_net =
     (let h = fin_net div 3600; m = (fin_net mod 3600) div 60; s = fin_net mod 60
      in if h > 0 then str_int h @ [58] @ fmt_02d m @ [58] @ fmt_02d s
         else fmt_02d m @ [58] @ fmt_02d s)"


section \<open>Finish detection (\<open>webapp/services/prediction.py\<close>)\<close>

text \<open>\<open>_clean\<close> and \<open>_is_finish_label\<close>, the module's own copies of the two helpers\<close>

definition clean :: "pystr option \<Rightarrow> pystr" where
  "clean s =
     (case s of
        None \<Rightarrow> []
      | Some t \<Rightarrow>
          collapse_ws (strip (map (\<lambda>c. if c = 0xA0 then 32 else c)
                                  (filter (\<lambda>c. \<not> is_zwsp c) t))))"

definition is_finish_label_pred :: "pystr option \<Rightarrow> bool" where
  "is_finish_label_pred label =
     (let raw = clean label; low = lower raw
      in any_in FINISH_KEYWORDS_KO raw \<or> any_in FINISH_KEYWORDS_EN low)"

text \<open>The dictionary that \<open>check_finish_status\<close> returns\<close>

record finish_status =
  finished :: bool
  finish_point :: "pystr option"
  finish_net :: "pystr option"
  finish_clock :: "pystr option"

definition not_finished :: finish_status where
  "not_finished =
     \<lparr>finished = False, finish_point = None, finish_net = None, finish_clock = None\<rparr>"

text \<open>\<open>looks_time(net) or looks_time(clk) or net or clk\<close>, on the cleaned fields of a
  split\<close>

definition has_time :: "split_rec \<Rightarrow> bool" where
  "has_time s =
     (let net = clean (net_time s); clk = clean (pass_clock s)
      in looks_time net \<or> looks_time clk \<or> net \<noteq> [] \<or> clk \<noteq> [])"

text \<open>\<open>t if looks_time(t) else (t or None)\<close>\<close>

definition time_or_none :: "pystr \<Rightarrow> pystr option" where
  "time_or_none t = (if looks_time t then Some t else if t \<noteq> [] then Some t else None)"

text \<open>The dictionary returned for a finish at the split \<open>s\<close>: the three
  \<open>return {'finished': True, ...}\<close> of the source are the same expression.\<close>

definition finished_at :: "split_rec \<Rightarrow> finish_status" where
  "finished_at s =
     \<lparr>finished = True,
      finish_point =
        Some (if clean (point_label s) \<noteq> [] then clean (point_label s) else str ''Finish''),
      finish_net = time_or_none (clean (net_time s)),
      finish_clock = time_or_none (clean (pass_clock s))\<rparr>"

text \<open>\<open>s.get("point_km") or km_from_label(_clean(s.get("point_label")))\<close>: a missing
  or zero \<open>point_km\<close> falls through to the label.\<close>

definition split_km :: "split_rec \<Rightarrow> rat option" where
  "split_km s =
     (case point_km s of
        Some k \<Rightarrow> if k \<noteq> 0 then Some k else km_from_label (clean (point_label s))
      | None \<Rightarrow> km_from_label (clean (point_label s)))"

text \<open>The loop over \<open>DISTANCE_TOLERANCE.items()\<close> with its \<open>break\<close>; \<open>tol\<close> is the
  value the variable has when no range holds the distance.\<close>

fun lookup_tolerance :: "((rat \<times> rat option) \<times> rat) list \<Rightarrow> rat \<Rightarrow> rat \<Rightarrow> rat" where
  "lookup_tolerance [] snapped_km tol = tol"
| "lookup_tolerance (((min_km, max_km), t) # rest) snapped_km tol =
     (if min_km \<le> snapped_km \<and> (case max_km of None \<Rightarrow> True | Some m \<Rightarrow> snapped_km < m)
      then t else lookup_tolerance rest snapped_km tol)"

text \<open>The loop \<open>for s in reversed(splits)\<close> of rule 2, over the reversed list\<close>

fun scan_near :: "split_rec list \<Rightarrow> rat \<Rightarrow> rat \<Rightarrow> finish_status option" where
  "scan_near [] snapped_km tolerance = None"
| "scan_near (s # rest) snapped_km tolerance =
     (case split_km s of
        None \<Rightarrow> scan_near rest snapped_km tolerance
      | Some k \<Rightarrow>
          if \<bar>k - snapped_km\<bar> \<le> tolerance \<and> has_time s then Some (finished_at s)
          else scan_near rest snapped_km tolerance)"

text \<open>\<open>snap_distance(total_km) or total_km\<close>\<close>

definition snapped_total :: "rat \<Rightarrow> rat" where
  "snapped_total total_km =
     (case snap_distance (Some total_km) of
        Some v \<Rightarrow> if v \<noteq> 0 then v else total_km
      | None \<Rightarrow> total_km)"

text \<open>
  \<open>PredictionService.check_finish_status(splits, total_km)\<close>, with \<open>total_km\<close> a float
  as the signature says.
\<close>

definition check_finish_status :: "split_rec list \<Rightarrow> rat \<Rightarrow> finish_status" where
  "check_finish_status splits total_km =
     (if splits = [] then not_finished
      else
        let finish_rows = filter (\<lambda>s. is_finish_label_pred (point_label s)) splits
        in if finish_rows \<noteq> [] \<and> has_time (last finish_rows)
           then finished_at (last finish_rows)
           else
             let snapped_km = snapped_total total_km;
                 tolerance = lookup_tolerance DISTANCE_TOLERANCE snapped_km 0.5
             in (case scan_near (rev splits) snapped_km tolerance of
                   Some r \<Rightarrow> r
                 | None \<Rightarrow>
                     if total_km > 0
                     then (case split_km (last splits) of
                             Some k \<Rightarrow>
                               if k / total_km \<ge> 0.9 \<and> has_time (last splits)
                               then finished_at (last splits) else not_finished
                           | None \<Rightarrow> not_finished)
                     else not_finished))"


section \<open>Scheduler (\<open>crawler/scheduler.py\<close>)\<close>

datatype py_error = OverflowError | IntegrityError

record schedule_config =
  min_marathon_interval :: int
  min_participant_gap :: rat
  participant_gap_jitter :: rat

definition default_config :: schedule_config where
  "default_config =
     \<lparr>min_marathon_interval = 5, min_participant_gap = 3.0, participant_gap_jitter = 2.0\<rparr>"

text \<open>
  The state of a \<open>CrawlerScheduler\<close> and of an \<open>AdaptiveScheduler\<close>. Times are seconds
  as \<open>time.time()\<close> returns them; every operation that reads the clock takes the
  reading as its argument \<open>now\<close>. The failure counter of a marathon starts at 0 and is
  only ever incremented, so it is a natural number.
\<close>

record crawler_scheduler =
  config :: schedule_config
  last_marathon_run :: "int \<rightharpoonup> rat"
  last_participant_fetch :: "int \<rightharpoonup> rat"

record adaptive_scheduler = crawler_scheduler +
  failure_count :: "int \<rightharpoonup> nat"
  max_backoff :: rat
  backoff_multiplier :: rat

text \<open>\<open>AdaptiveScheduler(config)\<close>\<close>

definition AdaptiveScheduler :: "schedule_config option \<Rightarrow> adaptive_scheduler" where
  "AdaptiveScheduler cfg =
     \<lparr>config = (case cfg of None \<Rightarrow> default_config | Some c \<Rightarrow> c),
      last_marathon_run = Map.empty,
      last_participant_fetch = Map.empty,
      failure_count = Map.empty,
      max_backoff = 300,
      backoff_multiplier = 2.0\<rparr>"

text \<open>\<open>d.get(k, default)\<close>\<close>

definition get_or :: "('k \<rightharpoonup> 'v) \<Rightarrow> 'k \<Rightarrow> 'v \<Rightarrow> 'v" where
  "get_or d k dflt = (case d k of None \<Rightarrow> dflt | Some v \<Rightarrow> v)"

text \<open>\<open>CrawlerScheduler.should_run_marathon\<close> and \<open>mark_marathon_run\<close>\<close>

definition base_should_run_marathon ::
  "'a crawler_scheduler_scheme \<Rightarrow> int \<Rightarrow> int \<Rightarrow> rat \<Rightarrow> bool" where
  "base_should_run_marathon s marathon_id refresh_sec now =
     (let last_run = get_or (last_marathon_run s) marathon_id 0;
          min_interval = max (min_marathon_interval (config s)) refresh_sec
      in now - last_run \<ge> of_int min_interval)"

definition mark_marathon_run ::
  "'a crawler_scheduler_scheme \<Rightarrow> int \<Rightarrow> rat \<Rightarrow> 'a crawler_scheduler_scheme" where
  "mark_marathon_run s marathon_id now =
     s\<lparr>last_marathon_run := (last_marathon_run s)(marathon_id \<mapsto> now)\<rparr>"

text \<open>\<open>b ** n\<close> for a float \<open>b\<close>: \<open>OverflowError\<close> when the power is beyond the doubles\<close>

definition float_pow :: "rat \<Rightarrow> nat \<Rightarrow> py_error + rat" where
  "float_pow b n = (if float_finite (b ^ n) then Inr (b ^ n) else Inl OverflowError)"

text \<open>
  \<open>AdaptiveScheduler.should_run_marathon\<close>. The two readings of the clock in one call
  (one in the inherited check, one for the backoff) are the same instant \<open>now\<close>.
\<close>

definition should_run_marathon ::
  "adaptive_scheduler \<Rightarrow> int \<Rightarrow> int \<Rightarrow> rat \<Rightarrow> py_error + bool" where
  "should_run_marathon s marathon_id refresh_sec now =
     (if \<not> base_should_run_marathon s marathon_id refresh_sec now then Inr False
      else
        let failures = get_or (failure_count s) marathon_id 0
        in if failures = 0 then Inr True
           else (case float_pow (backoff_multiplier s) failures of
                   Inl e \<Rightarrow> Inl e
                 | Inr p \<Rightarrow>
                     let backoff_sec = min (of_int refresh_sec * p) (max_backoff s);
                         last_run = get_or (last_marathon_run s) marathon_id 0
                     in Inr (now - last_run \<ge> backoff_sec)))"

definition record_success :: "adaptive_scheduler \<Rightarrow> int \<Rightarrow> rat \<Rightarrow> adaptive_scheduler" where
  "record_success s marathon_id now =
     (mark_marathon_run s marathon_id now)
       \<lparr>failure_count := (failure_count s)(marathon_id := None)\<rparr>"

definition record_failure :: "adaptive_scheduler \<Rightarrow> int \<Rightarrow> rat \<Rightarrow> adaptive_scheduler" where
  "record_failure s marathon_id now =
     (mark_marathon_run s marathon_id now)
       \<lparr>failure_count :=
          (failure_count s)(marathon_id \<mapsto> get_or (failure_count s) marathon_id 0 + 1)\<rparr>"

definition get_backoff_time :: "adaptive_scheduler \<Rightarrow> int \<Rightarrow> int \<Rightarrow> py_error + rat" where
  "get_backoff_time s marathon_id refresh_sec =
     (let failures = get_or (failure_count s) marathon_id 0
      in if failures = 0 then Inr (of_int refresh_sec)
         else (case float_pow (backoff_multiplier s) failures of
                 Inl e \<Rightarrow> Inl e
               | Inr p \<Rightarrow> Inr (min (of_int refresh_sec * p) (max_backoff s))))"


section \<open>TLS verification per host (\<open>config/settings.py\<close>, \<open>utils/network_utils.py\<close>)\<close>

definition default_insec :: pystr where
  "default_insec =
     str ''smartchip.co.kr,www.smartchip.co.kr, myresult.co.kr, image.smartchip.co.kr, img.spct.kr''"

text \<open>
  \<open>INSECURE_HOSTS\<close>, from the environment variable \<open>SMARTCHIP_INSECURE_HOSTS\<close> (\<open>None\<close>
  when it is not set): the set is kept as the list of its members.
\<close>

definition INSECURE_HOSTS :: "pystr option \<Rightarrow> pystr list" where
  "INSECURE_HOSTS env =
     map (\<lambda>h. lower (strip h))
       (filter (\<lambda>h. strip h \<noteq> [])
          (split_on 44 (case env of None \<Rightarrow> default_insec | Some v \<Rightarrow> v)))"

text \<open>\<open>VERIFY_SSL_DEFAULT\<close>, from \<open>SMARTCHIP_INSECURE_SSL\<close> with default \<open>"0"\<close>\<close>

definition VERIFY_SSL_DEFAULT :: "pystr option \<Rightarrow> bool" where
  "VERIFY_SSL_DEFAULT env = ((case env of None \<Rightarrow> str ''0'' | Some v \<Rightarrow> v) \<noteq> str ''1'')"

text \<open>\<open>verify_for_host(host)\<close> under the two environment variables\<close>

definition verify_for_host :: "pystr option \<Rightarrow> pystr option \<Rightarrow> pystr option \<Rightarrow> bool" where
  "verify_for_host hosts_env ssl_env host =
     (lower (or_empty host) \<notin> set (INSECURE_HOSTS hosts_env) \<and> VERIFY_SSL_DEFAULT ssl_env)"

text \<open>\<open>s.endswith(k)\<close>\<close>

definition ends_with :: "pystr \<Rightarrow> pystr \<Rightarrow> bool" where
  "ends_with s k = starts_with (rev s) (rev k)"


section \<open>The table \<open>splits\<close> and the net time from clocks (\<open>webapp/services/records.py\<close>)\<close>

text \<open>
  A row of the table \<open>splits\<close> (\<open>core/database.py\<close>). \<open>participant_id\<close> and
  \<open>point_label\<close> are \<open>NOT NULL\<close> and unique together; the other columns may be
  \<open>NULL\<close>. The table is the list of its rows in the order of \<open>id\<close>. \<open>seen_at\<close> holds
  the text of \<open>datetime.now().isoformat()\<close>, modelled by the instant it denotes, in
  seconds.
\<close>

record split_row =
  participant_id :: int
  db_point_label :: pystr
  db_point_km :: "rat option"
  db_net_time :: "pystr option"
  db_pass_clock :: "pystr option"
  db_pace :: "pystr option"
  seen_at :: "rat option"

text \<open>
  A row of the common table expression \<open>base\<close>: \<open>point_km\<close>, \<open>pass_clock\<close> (not
  \<open>NULL\<close>, by the \<open>WHERE\<close> clause) and \<open>seen_at\<close>.
\<close>

type_synonym base_row = "rat option \<times> pystr \<times> rat option"

definition sql_base :: "split_row list \<Rightarrow> int \<Rightarrow> base_row list" where
  "sql_base table pid =
     List.map_filter
       (\<lambda>r. if participant_id r = pid
            then (case db_pass_clock r of
                    None \<Rightarrow> None
                  | Some c \<Rightarrow> if length c \<ge> 8 then Some (db_point_km r, c, seen_at r) else None)
            else None)
       table"

text \<open>\<open>datetime(seen_at)\<close>: the instant to the whole second\<close>

definition sql_datetime :: "rat option \<Rightarrow> int option" where
  "sql_datetime t = map_option floor t"

text \<open>
  The rows of one partition (one value of \<open>point_km\<close>) that are first under
  \<open>ORDER BY datetime(seen_at) DESC\<close>; \<open>NULL\<close> sorts below every value. There may be
  several: rows written by the same tick carry the same \<open>seen_at\<close>.
\<close>

definition partition_best :: "base_row list \<Rightarrow> rat option \<Rightarrow> base_row list" where
  "partition_best base km =
     (let part = filter (\<lambda>r. fst r = km) base;
          top = fold max (map (\<lambda>r. sql_datetime (snd (snd r))) part) None
      in filter (\<lambda>r. sql_datetime (snd (snd r)) = top) part)"

text \<open>
  \<open>dedup\<close> with \<open>rn = 1\<close>, then \<open>ordered\<close>: one row per \<open>point_km\<close>, in the order of
  \<open>point_km\<close> (\<open>NULL\<close> first). Which of several first rows gets \<open>rn = 1\<close> is left
  open by SQL; \<open>pick\<close> stands for the choice of the engine, as an index into them.
\<close>

definition sql_ordered :: "(base_row list \<Rightarrow> nat) \<Rightarrow> base_row list \<Rightarrow> base_row list" where
  "sql_ordered pick base =
     map (\<lambda>km. let best = partition_best base km in best ! (pick best mod length best))
       (sort (remdups (map fst base)))"

text \<open>
  The number SQLite reads from a text in arithmetic: the longest numeric prefix after
  leading white space, 0 if there is none. An exponent needs three characters and
  cannot occur in the two characters that \<open>substr\<close> hands over here.
\<close>

definition sql_space :: "nat \<Rightarrow> bool" where
  "sql_space c \<longleftrightarrow> (9 \<le> c \<and> c \<le> 13) \<or> c = 32"

definition sql_num :: "pystr \<Rightarrow> rat" where
  "sql_num t =
     (case split_sign (dropWhile sql_space t) of
        (neg, body) \<Rightarrow>
          (let ip = takeWhile is_digit body;
               r = dropWhile is_digit body;
               fp = (case r of [] \<Rightarrow> [] | c # f \<Rightarrow> if c = 46 then takeWhile is_digit f else []);
               v = (if ip = [] \<and> fp = [] then 0 else decimal_val ip fp)
           in if neg then - v else v))"

text \<open>\<open>substr(pass_clock,1,2)*3600 + substr(pass_clock,4,2)*60 + substr(pass_clock,7,2)\<close>\<close>

definition clock_sec :: "pystr \<Rightarrow> rat" where
  "clock_sec c =
     sql_num (take 2 c) * 3600 + sql_num (take 2 (drop 3 c)) * 60 + sql_num (take 2 (drop 6 c))"

text \<open>\<open>gap_sec\<close> of every row that has a predecessor\<close>

fun gaps :: "rat list \<Rightarrow> rat list" where
  "gaps (prev # sec # rest) =
     (if sec < prev then (sec + 86400) - prev else sec - prev) # gaps (sec # rest)"
| "gaps _ = []"

text \<open>The seconds of the rows of \<open>parsed\<close>, in order\<close>

definition parsed_seconds :: "(base_row list \<Rightarrow> nat) \<Rightarrow> split_row list \<Rightarrow> int \<Rightarrow> rat list" where
  "parsed_seconds pick table pid =
     map (\<lambda>r. clock_sec (fst (snd r))) (sql_ordered pick (sql_base table pid))"

text \<open>\<open>CALC_NET_TIME_SQL\<close>: \<open>total_seconds\<close>, \<open>NULL\<close> when no row has a predecessor\<close>

definition CALC_NET_TIME_SQL :: "(base_row list \<Rightarrow> nat) \<Rightarrow> split_row list \<Rightarrow> int \<Rightarrow> rat option" where
  "CALC_NET_TIME_SQL pick table pid =
     (let g = gaps (parsed_seconds pick table pid)
      in if g = [] then None else Some (sum_list g))"

text \<open>\<open>int(x)\<close> of a number: towards zero\<close>

definition py_trunc :: "rat \<Rightarrow> int" where
  "py_trunc x = (if 0 \<le> x then \<lfloor>x\<rfloor> else \<lceil>x\<rceil>)"

text \<open>\<open>RecordsService._calculate_net_time_from_clocks(conn, participant_id)\<close>\<close>

definition calculate_net_time_from_clocks ::
  "(base_row list \<Rightarrow> nat) \<Rightarrow> split_row list \<Rightarrow> int \<Rightarrow> pystr option" where
  "calculate_net_time_from_clocks pick table pid =
     (case CALC_NET_TIME_SQL pick table pid of
        None \<Rightarrow> None
      | Some total_sum \<Rightarrow>
          (let total_seconds = py_trunc total_sum;
               h = total_seconds div 3600; rem = total_seconds mod 3600;
               m = rem div 60; s = rem mod 60
           in Some (fmt_02d h @ [58] @ fmt_02d m @ [58] @ fmt_02d s)))"


section \<open>Saving a batch (\<open>crawler/engine.py\<close>, \<open>_save_results\<close>)\<close>

text \<open>
  One result of \<open>_crawl_one\<close>, \<open>(pid, splits, meta, assets)\<close>; of an asset the keys
  \<open>kind\<close>, \<open>host\<close> and \<open>url\<close>. The marathon row gives \<open>usedata\<close> and
  \<open>url_template\<close>, a participant row \<open>id\<close> and \<open>nameorbibno\<close>. The \<open>meta\<close> and
  \<open>assets\<close> tables play no part in what follows and are left out of the state.
\<close>

record asset_rec =
  kind :: "pystr option"
  host :: "pystr option"
  url :: "pystr option"

record crawl_result =
  pid :: int
  splits :: "split_rec list"
  assets :: "asset_rec list"

record marathon_row =
  usedata :: "pystr option"
  url_template :: pystr

record participant_row =
  p_id :: int
  nameorbibno :: pystr

text \<open>\<open>s.replace(old, new)\<close> for a non-empty \<open>old\<close>: the occurrences from the left, not
  overlapping. \<open>skip\<close> counts the characters of an occurrence still to be passed.\<close>

fun replace_from :: "nat \<Rightarrow> pystr \<Rightarrow> pystr \<Rightarrow> pystr \<Rightarrow> pystr" where
  "replace_from skip old new [] = []"
| "replace_from (Suc k) old new (c # cs) = replace_from k old new cs"
| "replace_from 0 old new (c # cs) =
     (if starts_with (c # cs) old then new @ replace_from (length old - 1) old new cs
      else c # replace_from 0 old new cs)"

definition replace :: "pystr \<Rightarrow> pystr \<Rightarrow> pystr \<Rightarrow> pystr" where
  "replace s old new = replace_from 0 old new s"

text \<open>\<open>s.isdigit()\<close>, on the ASCII digits, and \<open>s.zfill(6)\<close> for a string of digits\<close>

definition isdigit :: "pystr \<Rightarrow> bool" where
  "isdigit s \<longleftrightarrow> s \<noteq> [] \<and> list_all is_digit s"

definition zfill6 :: "pystr \<Rightarrow> pystr" where
  "zfill6 s = replicate (6 - length s) 48 @ s"

text \<open>\<open>_build_url(template, nameorbibno, usedata)\<close>\<close>

definition build_url :: "pystr \<Rightarrow> pystr \<Rightarrow> pystr \<Rightarrow> pystr" where
  "build_url template bib usedata_text =
     (let url1 = replace template (str ''{nameorbibno}'') bib;
          url2 = replace url1 (str ''{usedata}'') usedata_text
      in if contains url2 (str ''{bib_spct6}'')
         then replace url2 (str ''{bib_spct6}'') (if isdigit bib then zfill6 bib else bib)
         else url2)"

text \<open>\<open>pid_to_bib = {p["id"]: p["nameorbibno"] for p in participants}\<close>: a later row
  replaces an earlier one with the same id.\<close>

definition pid_to_bib :: "participant_row list \<Rightarrow> int \<rightharpoonup> pystr" where
  "pid_to_bib participants = map_of (rev (map (\<lambda>p. (p_id p, nameorbibno p)) participants))"

text \<open>The flag \<open>is_finished\<close> of one result: some split whose lowered label contains
  \<open>finish\<close> or the Hangul word do-chak.\<close>

definition is_finished :: "split_rec list \<Rightarrow> bool" where
  "is_finished ss =
     list_ex (\<lambda>s. let l = lower (or_empty (point_label s))
                  in contains l (str ''finish'') \<or> contains l [0xB3C4, 0xCC29]) ss"

text \<open>A job of the image queue: \<open>(host, usedata, bib, url, referer_url, pid)\<close>\<close>

type_synonym image_job = "pystr option \<times> pystr \<times> pystr \<times> pystr \<times> pystr \<times> int"

text \<open>The jobs put on the queue for one asset of a result, and for a whole result\<close>

definition asset_jobs :: "marathon_row \<Rightarrow> (int \<rightharpoonup> pystr) \<Rightarrow> crawl_result \<Rightarrow> asset_rec \<Rightarrow> image_job list" where
  "asset_jobs marathon bibs r a =
     (case url a of
        None \<Rightarrow> []
      | Some u \<Rightarrow>
          if u = [] then []
          else (case bibs (pid r) of
                  None \<Rightarrow> []
                | Some bib \<Rightarrow>
                    if bib \<noteq> [] \<and> is_finished (splits r)
                    then [(host a, or_empty (usedata marathon), bib, u,
                           build_url (url_template marathon) bib (or_empty (usedata marathon)),
                           pid r)]
                    else []))"

text \<open>Everything \<open>_save_results\<close> puts on \<open>image_queue\<close>, in order\<close>

definition image_queue_puts ::
  "crawl_result list \<Rightarrow> marathon_row \<Rightarrow> participant_row list \<Rightarrow> image_job list" where
  "image_queue_puts results marathon participants =
     concat (map (\<lambda>r. concat (map (asset_jobs marathon (pid_to_bib participants) r) (assets r)))
               results)"

text \<open>An entry of \<open>split_batch\<close>:
  \<open>(pid, point_label, point_km, net_time, pass_clock, pace, now_iso)\<close>\<close>

record batch_row =
  b_pid :: int
  b_label :: "pystr option"
  b_km :: "rat option"
  b_net :: "pystr option"
  b_clock :: "pystr option"
  b_pace :: "pystr option"
  b_seen :: rat

definition split_batch :: "crawl_result list \<Rightarrow> rat \<Rightarrow> batch_row list" where
  "split_batch results now =
     concat (map (\<lambda>r. map (\<lambda>s. \<lparr>b_pid = pid r, b_label = point_label s, b_km = point_km s,
                                 b_net = net_time s, b_clock = pass_clock s, b_pace = pace s,
                                 b_seen = now\<rparr>) (splits r)) results)"

text \<open>\<open>"finish" in (s[1] or "").lower()\<close>\<close>

definition finish_in_label :: "batch_row \<Rightarrow> bool" where
  "finish_in_label b = contains (lower (or_empty (b_label b))) (str ''finish'')"

text \<open>
  The recomputation of a missing finish time before the write: \<open>pids_to_recalc\<close>, and
  for each of them the \<open>net_time\<close> of its finish entries replaced by the time computed
  from the clocks already in the table, when there is one.
\<close>

definition needs_recalc :: "batch_row \<Rightarrow> bool" where
  "needs_recalc b \<longleftrightarrow>
     finish_in_label b \<and> strip (or_empty (b_clock b)) \<noteq> [] \<and> \<not> looks_time (or_empty (b_net b))"

definition recalc_batch ::
  "(base_row list \<Rightarrow> nat) \<Rightarrow> split_row list \<Rightarrow> batch_row list \<Rightarrow> batch_row list" where
  "recalc_batch pick table batch =
     map (\<lambda>b. if b_pid b \<in> b_pid ` set (filter needs_recalc batch) \<and> finish_in_label b
              then (case calculate_net_time_from_clocks pick table (b_pid b) of
                      None \<Rightarrow> b
                    | Some t \<Rightarrow> if t \<noteq> [] then b\<lparr>b_net := Some t\<rparr> else b)
              else b) batch"

text \<open>
  One \<open>INSERT ... ON CONFLICT(participant_id, point_label) DO UPDATE SET\<close> of
  \<open>net_time\<close>, \<open>pass_clock\<close>, \<open>pace\<close> and \<open>seen_at\<close>. A \<open>NULL\<close> label violates
  \<open>NOT NULL\<close>. The foreign key to \<open>participants\<close> is not modelled: the ids of a
  batch are those of the participants read in the same tick.
\<close>

definition same_key :: "batch_row \<Rightarrow> pystr \<Rightarrow> split_row \<Rightarrow> bool" where
  "same_key b l r \<longleftrightarrow> participant_id r = b_pid b \<and> db_point_label r = l"

definition upsert_split :: "batch_row \<Rightarrow> split_row list \<Rightarrow> py_error + split_row list" where
  "upsert_split b table =
     (case b_label b of
        None \<Rightarrow> Inl IntegrityError
      | Some l \<Rightarrow>
          if list_ex (same_key b l) table
          then Inr (map (\<lambda>r. if same_key b l r
                              then r\<lparr>db_net_time := b_net b, db_pass_clock := b_clock b,
                                     db_pace := b_pace b, seen_at := Some (b_seen b)\<rparr>
                              else r) table)
          else Inr (table @ [\<lparr>participant_id = b_pid b, db_point_label = l,
                               db_point_km = b_km b, db_net_time = b_net b,
                               db_pass_clock = b_clock b, db_pace = b_pace b,
                               seen_at = Some (b_seen b)\<rparr>]))"

text \<open>\<open>conn.executemany\<close>: the statements in order, stopping at the first error\<close>

fun executemany :: "batch_row list \<Rightarrow> split_row list \<Rightarrow> py_error + split_row list" where
  "executemany [] table = Inr table"
| "executemany (b # bs) table =
     (case upsert_split b table of
        Inl e \<Rightarrow> Inl e
      | Inr t \<Rightarrow> executemany bs t)"

text \<open>
  The table \<open>splits\<close> after \<open>_save_results\<close> at the instant \<open>now\<close>. An exception leaves
  the transaction uncommitted, and the table as it was.
\<close>

definition save_results ::
  "(base_row list \<Rightarrow> nat) \<Rightarrow> crawl_result list \<Rightarrow> rat \<Rightarrow> split_row list \<Rightarrow> split_row list" where
  "save_results pick results now table =
     (case executemany (recalc_batch pick table (split_batch results now)) table of
        Inl e \<Rightarrow> table
      | Inr t \<Rightarrow> t)"

text \<open>The row of a participant with a given label\<close>

definition find_row :: "split_row list \<Rightarrow> int \<Rightarrow> pystr \<Rightarrow> split_row option" where
  "find_row table p l = find (\<lambda>r. participant_id r = p \<and> db_point_label r = l) table"


section \<open>Predicates and data used to state the properties\<close>

text \<open>A split that rule 2 of finish detection accepts: its distance is within the
  tolerance of the snapped total and it carries a time.\<close>

definition near_finish :: "rat \<Rightarrow> rat \<Rightarrow> split_rec \<Rightarrow> bool" where
  "near_finish snapped_km tolerance s =
     (case split_km s of
        None \<Rightarrow> False
      | Some k \<Rightarrow> \<bar>k - snapped_km\<bar> \<le> tolerance \<and> has_time s)"

text \<open>A split that rule 3 accepts when it is the last one\<close>

definition mostly_done :: "rat \<Rightarrow> split_rec \<Rightarrow> bool" where
  "mostly_done total_km s =
     (total_km > 0 \<and> has_time s \<and>
      (case split_km s of None \<Rightarrow> False | Some k \<Rightarrow> k / total_km \<ge> 0.9))"

definition mk_split :: "string \<Rightarrow> rat option \<Rightarrow> string \<Rightarrow> string \<Rightarrow> string \<Rightarrow> split_rec" where
  "mk_split l km net clk pc =
     \<lparr>point_label = Some (str l), point_km = km, net_time = Some (str net),
      pass_clock = Some (str clk), pace = Some (str pc)\<rparr>"

text \<open>The three rows of a half marathon in progress, the last one at 21.0 km\<close>

definition half_splits :: "split_rec list" where
  "half_splits =
     [mk_split ''5.0km'' (Some 5) ''00:25:30'' ''09:25:30'' ''05:06'',
      mk_split ''10.0km'' (Some 10) ''00:51:00'' ''09:51:00'' ''05:06'',
      mk_split ''21.0km'' (Some 21) ''01:45:00'' ''10:45:00'' ''05:00'']"

text \<open>A finish row with its times, followed by a row whose label also holds a finish
  keyword and which has no time yet\<close>

definition two_finish_rows :: "split_rec list" where
  "two_finish_rows =
     [mk_split ''Finish'' None ''01:45:00'' ''10:45:00'' '''',
      mk_split ''Goal'' None '''' '''' '''']"

text \<open>A row at 22.2 km with its times, followed by a row at 10 km\<close>

definition far_rows :: "split_rec list" where
  "far_rows =
     [mk_split ''22.2km'' (Some 22.2) ''01:50:00'' ''10:50:00'' '''',
      mk_split ''10km'' (Some 10) ''00:51:00'' ''09:51:00'' '''']"

text \<open>A fresh adaptive scheduler after one failure of marathon 1 at time 0\<close>

definition failed_once :: adaptive_scheduler where
  "failed_once = record_failure (AdaptiveScheduler None) 1 0"

text \<open>The participant of an image job\<close>

definition job_pid :: "image_job \<Rightarrow> int" where
  "job_pid j = snd (snd (snd (snd (snd j))))"

text \<open>A split whose label, lowered, holds \<open>finish\<close> or the Hangul word do-chak\<close>

definition finish_or_dochak :: "split_rec \<Rightarrow> bool" where
  "finish_or_dochak s \<longleftrightarrow>
     contains (lower (or_empty (point_label s))) (str ''finish'') \<or>
     contains (lower (or_empty (point_label s))) [0xB3C4, 0xCC29]"

text \<open>Two results with a certificate each: participant 1 with a row labelled \<open>Goal\<close>,
  participant 2 with a row labelled \<open>FINISH\<close>\<close>

definition cert_asset :: asset_rec where
  "cert_asset =
     \<lparr>kind = Some (str ''certificate''), host = Some (str ''img.spct.kr''),
      url = Some (str ''https://img.spct.kr/a.jpg'')\<rparr>"

definition goal_result :: crawl_result where
  "goal_result =
     \<lparr>pid = 1, splits = [mk_split ''Goal'' None ''01:45:00'' ''10:45:00'' ''''],
      assets = [cert_asset]\<rparr>"

definition finish_result :: crawl_result where
  "finish_result =
     \<lparr>pid = 2, splits = [mk_split ''FINISH'' None ''01:45:00'' ''10:45:00'' ''''],
      assets = [cert_asset]\<rparr>"

definition demo_marathon :: marathon_row where
  "demo_marathon =
     \<lparr>usedata = Some (str ''2025''), url_template = str ''https://x.kr/r?b={nameorbibno}''\<rparr>"

definition demo_participants :: "participant_row list" where
  "demo_participants =
     [\<lparr>p_id = 1, nameorbibno = str ''101''\<rparr>, \<lparr>p_id = 2, nameorbibno = str ''102''\<rparr>]"

text \<open>
  The identity of the rows of a table is kept: no row is lost, and each keeps its
  participant, its label and its \<open>point_km\<close>.
\<close>

definition frame_kept :: "split_row list \<Rightarrow> split_row list \<Rightarrow> bool" where
  "frame_kept t t' \<longleftrightarrow>
     length t \<le> length t' \<and>
     (\<forall>i < length t.
        participant_id (t' ! i) = participant_id (t ! i) \<and>
        db_point_label (t' ! i) = db_point_label (t ! i) \<and>
        db_point_km (t' ! i) = db_point_km (t ! i))"

text \<open>The results of a tick hold a split of participant \<open>p\<close> with the label \<open>l\<close>; and
  every split of the results has a label.\<close>

definition writes_split :: "crawl_result list \<Rightarrow> int \<Rightarrow> pystr \<Rightarrow> bool" where
  "writes_split results p l \<longleftrightarrow>
     (\<exists>r \<in> set results. pid r = p \<and> (\<exists>s \<in> set (splits r). point_label s = Some l))"

definition all_labelled :: "crawl_result list \<Rightarrow> bool" where
  "all_labelled results \<longleftrightarrow> (\<forall>r \<in> set results. \<forall>s \<in> set (splits r). point_label s \<noteq> None)"

text \<open>Two ticks for participant 7 at the 5 km point; the second reports another
  distance and a corrected time for the same label\<close>

definition first_tick :: "crawl_result list" where
  "first_tick =
     [\<lparr>pid = 7, splits = [mk_split ''5km'' (Some 5) ''00:25:30'' ''09:25:30'' ''05:06''],
       assets = []\<rparr>]"

definition second_tick :: "crawl_result list" where
  "second_tick =
     [\<lparr>pid = 7, splits = [mk_split ''5km'' (Some 5.2) ''00:25:31'' ''09:25:31'' ''05:06''],
       assets = []\<rparr>]"

text \<open>A clock text \<open>HH:MM:SS\<close>, possibly followed by more, of a valid time of day\<close>

definition is_clock_text :: "pystr \<Rightarrow> bool" where
  "is_clock_text c =
     (case c of
        h1 # h2 # c1 # m1 # m2 # c2 # s1 # s2 # rest \<Rightarrow>
          is_digit h1 \<and> is_digit h2 \<and> c1 = 58 \<and> is_digit m1 \<and> is_digit m2 \<and> c2 = 58 \<and>
          is_digit s1 \<and> is_digit s2 \<and>
          (h1 - 48) * 10 + (h2 - 48) < 24 \<and> m1 \<le> 53 \<and> s1 \<le> 53
      | _ \<Rightarrow> False)"

text \<open>The delta of two adjacent clocks, a day added when it is negative\<close>

definition clock_gap :: "rat \<times> rat \<Rightarrow> rat" where
  "clock_gap p = (if snd p < fst p then snd p - fst p + 86400 else snd p - fst p)"

text \<open>Three rows of participant 7 that cross midnight\<close>

definition mk_row :: "int \<Rightarrow> string \<Rightarrow> rat option \<Rightarrow> string \<Rightarrow> rat \<Rightarrow> split_row" where
  "mk_row p l km clk seen =
     \<lparr>participant_id = p, db_point_label = str l, db_point_km = km, db_net_time = None,
      db_pass_clock = Some (str clk), db_pace = None, seen_at = Some seen\<rparr>"

definition midnight_table :: "split_row list" where
  "midnight_table =
     [mk_row 7 ''30km'' (Some 30) ''23:58:00'' 100,
      mk_row 7 ''35km'' (Some 35) ''00:02:00'' 100,
      mk_row 7 ''Finish'' (Some 42.195) ''00:10:00'' 100]"

text \<open>Rows of participant 8 in daytime; the 5 km point has an older row under another
  label\<close>

definition daytime_table :: "split_row list" where
  "daytime_table =
     [mk_row 8 ''Start'' (Some 0) ''09:00:00'' 200,
      mk_row 8 ''5K'' (Some 5) ''09:29:59'' 100,
      mk_row 8 ''5km'' (Some 5) ''09:25:30'' 200,
      mk_row 8 ''10km'' (Some 10) ''09:51:00'' 200,
      mk_row 9 ''10km'' (Some 10) ''08:00:00'' 200]"

text \<open>A participant with one clock only\<close>

definition single_table :: "split_row list" where
  "single_table = [mk_row 8 ''Start'' (Some 0) ''09:00:00'' 200]"

text \<open>The parts of a duration text: two digits below 60, and a positive number of
  hours without leading zeros\<close>

definition two_digits_below_60 :: "pystr \<Rightarrow> bool" where
  "two_digits_below_60 t = (case t of [a, b] \<Rightarrow> 48 \<le> a \<and> a \<le> 53 \<and> is_digit b | _ \<Rightarrow> False)"

definition hours_text :: "pystr \<Rightarrow> bool" where
  "hours_text t \<longleftrightarrow> t \<noteq> [] \<and> list_all is_digit t \<and> hd t \<noteq> 48"

section \<open>Distance snapping\<close>

lemma min_key_from_mem: "min_key_from f b xs \<in> set (b # xs)"
  by (induction xs arbitrary: b) auto

lemma min_key_from_le: "x \<in> set (b # xs) \<Longrightarrow> f (min_key_from f b xs) \<le> f x"
proof (induction xs arbitrary: b x)
  case Nil
  then show ?case by simp
next
  case (Cons y ys)
  define b' where "b' = (if f y < f b then y else b)"
  have b'_le: "f b' \<le> f b" "f b' \<le> f y"
    by (auto simp: b'_def)
  have head: "f (min_key_from f b' ys) \<le> f b'"
    by (rule Cons.IH) simp
  have tail: "f (min_key_from f b' ys) \<le> f z" if "z \<in> set ys" for z
    by (rule Cons.IH) (simp add: that)
  from Cons.prems consider "x = b" | "x = y" | "x \<in> set ys" by auto
  then have "f (min_key_from f b' ys) \<le> f x"
  proof cases
    case 1
    with head b'_le show ?thesis by simp
  next
    case 2
    with head b'_le show ?thesis by simp
  next
    case 3
    then show ?thesis by (rule tail)
  qed
  then show ?case by (simp add: b'_def)
qed


lemma snap_best:
  assumes "0 < d"
  obtains best where "best \<in> set STANDARD_DISTANCES"
    and "\<forall>s\<in>set STANDARD_DISTANCES. \<bar>best - d\<bar> \<le> \<bar>s - d\<bar>"
    and "snap_distance (Some d) = (if \<bar>best - d\<bar> \<le> 0.6 then Some best else Some d)"
proof -
  obtain x xs where std: "STANDARD_DISTANCES = x # xs"
    by (simp add: STANDARD_DISTANCES_def)
  define best where "best = min_key_from (\<lambda>s. \<bar>s - d\<bar>) x xs"
  have mem: "best \<in> set STANDARD_DISTANCES"
    unfolding best_def std by (rule min_key_from_mem)
  have le: "\<forall>s\<in>set STANDARD_DISTANCES. \<bar>best - d\<bar> \<le> \<bar>s - d\<bar>"
    unfolding best_def std using min_key_from_le [where f = "\<lambda>s. \<bar>s - d\<bar>"] by blast
  have "snap_distance (Some d) = (if \<bar>best - d\<bar> \<le> 0.6 then Some best else Some d)"
    using assms by (simp add: snap_distance_def min_key_def std best_def)
  with mem le show ?thesis using that by blast
qed

text \<open>Two standard distances no more than 1.2 km apart are the same one.\<close>

lemma standard_apart:
  assumes "s \<in> set STANDARD_DISTANCES" "t \<in> set STANDARD_DISTANCES" "\<bar>s - t\<bar> \<le> 1.2"
  shows "s = t"
  using assms by (auto simp: STANDARD_DISTANCES_def)

text \<open>
  Claim C6, amended. For every positive distance \<open>d\<close>: if \<open>d\<close> is within 0.6 km of a
  standard distance \<open>s\<close>, then \<open>snap_distance\<close> returns \<open>s\<close>; if it is within 0.6 km
  of none, \<open>snap_distance\<close> returns \<open>d\<close> unchanged. (A distance that is zero or
  negative is answered with \<open>None\<close>: see \<open>snap_distance_zero_counterexample\<close>.)
\<close>

theorem snap_distance_spec:
  assumes "0 < d"
  shows "(\<forall>s\<in>set STANDARD_DISTANCES. \<bar>d - s\<bar> \<le> 0.6 \<longrightarrow> snap_distance (Some d) = Some s) \<and>
         ((\<forall>s\<in>set STANDARD_DISTANCES. \<not> \<bar>d - s\<bar> \<le> 0.6) \<longrightarrow> snap_distance (Some d) = Some d)"
proof -
  from assms obtain best where mem: "best \<in> set STANDARD_DISTANCES"
    and le: "\<forall>s\<in>set STANDARD_DISTANCES. \<bar>best - d\<bar> \<le> \<bar>s - d\<bar>"
    and snap: "snap_distance (Some d) = (if \<bar>best - d\<bar> \<le> 0.6 then Some best else Some d)"
    by (rule snap_best)
  have near: "snap_distance (Some d) = Some s"
    if "s \<in> set STANDARD_DISTANCES" "\<bar>d - s\<bar> \<le> 0.6" for s
  proof -
    from le that have "\<bar>best - d\<bar> \<le> \<bar>s - d\<bar>" by blast
    with that have close: "\<bar>best - d\<bar> \<le> 0.6" by linarith
    with that have "\<bar>best - s\<bar> \<le> 1.2" by linarith
    with mem that have "best = s" by (intro standard_apart)
    with snap close show ?thesis by simp
  qed
  have far: "snap_distance (Some d) = Some d"
    if "\<forall>s\<in>set STANDARD_DISTANCES. \<not> \<bar>d - s\<bar> \<le> 0.6"
  proof -
    from that mem have "\<not> \<bar>d - best\<bar> \<le> 0.6" by blast
    then have "\<not> \<bar>best - d\<bar> \<le> 0.6" by linarith
    with snap show ?thesis by simp
  qed
  from near far show ?thesis by blast
qed

text \<open>The theorem at 21.5 km (snapped to the half marathon) and at 30 km (kept).\<close>

theorem snap_distance_spec_witness:
  "(0::rat) < 21.5 \<and> snap_distance (Some 21.5) = Some 21.1 \<and> snap_distance (Some 30) = Some 30"
proof -
  have pos: "(0::rat) < 21.5" "(0::rat) < 30" by simp_all
  have a: "snap_distance (Some 21.5) = Some 21.1"
    using snap_distance_spec [OF pos(1)] by (simp add: STANDARD_DISTANCES_def)
  have b: "snap_distance (Some 30) = Some 30"
    using snap_distance_spec [OF pos(2)] by (simp add: STANDARD_DISTANCES_def)
  from pos a b show ?thesis by simp
qed

text \<open>
  Claim C6 as stated fails at \<open>d = 0\<close>: no standard distance is within 0.6 km of it,
  and \<open>snap_distance\<close> does not return it unchanged but returns \<open>None\<close>.
\<close>

theorem snap_distance_zero_counterexample:
  "list_all (\<lambda>s. \<not> \<bar>0 - s\<bar> \<le> 0.6) STANDARD_DISTANCES \<and> snap_distance (Some 0) = None"
  by (simp add: snap_distance_def STANDARD_DISTANCES_def)


section \<open>Label normalization\<close>

lemma finish_is_finish_label:
  "is_finish_label (Some (clean_text (Some (or_empty (Some (str ''Finish''))))))"
  by (simp add: is_finish_label_def clean_text_def or_empty_def str_def is_zwsp_def strip_def
      is_space_def collapse_ws_def lower_def lower_cp_def any_in_def FINISH_KEYWORDS_EN_def
      FINISH_KEYWORDS_KO_def)

lemma set_last_label_last: "last (set_last_label ss l) = (last ss)\<lparr>point_label := Some l\<rparr>"
  by (simp add: set_last_label_def)

lemma set_last_label_butlast: "butlast (set_last_label ss l) = butlast ss"
  by (simp add: set_last_label_def butlast_append)

lemma set_last_label_length: "ss \<noteq> [] \<Longrightarrow> length (set_last_label ss l) = length ss"
  by (simp add: set_last_label_def)

lemma set_last_label_nonempty: "set_last_label ss l \<noteq> []"
  by (simp add: set_last_label_def)

text \<open>\<open>ensure_finish_label\<close> returns its argument, or its argument with the last label
  set to \<open>Finish\<close>.\<close>

lemma ensure_finish_label_cases:
  "ensure_finish_label ss tot = ss \<or>
   (ss \<noteq> [] \<and> ensure_finish_label ss tot = set_last_label ss (str ''Finish''))"
  by (auto simp: ensure_finish_label_def Let_def split: option.splits)

text \<open>
  Claim C5. For a non-empty split list whose last cleaned label is not a finish label:
  every split but the last is unchanged, the last split changes in its label at most,
  and its label becomes \<open>Finish\<close> exactly when (a) a total distance is known and the
  last \<open>point_km\<close> is at least the total minus 1.0, or (b) no total distance is known
  and the last \<open>point_km\<close> lies in [41.5, 43.0]; otherwise the list is returned as it
  was. A total distance is known when \<open>if race_total_km:\<close> holds, that is when it is
  neither \<open>None\<close> nor zero.
\<close>

theorem ensure_finish_label_spec:
  assumes "ss \<noteq> []"
    and "\<not> is_finish_label (Some (clean_text (Some (or_empty (point_label (last ss))))))"
  shows "butlast (ensure_finish_label ss tot) = butlast ss \<and>
         length (ensure_finish_label ss tot) = length ss \<and>
         last (ensure_finish_label ss tot) =
           (last ss)\<lparr>point_label := point_label (last (ensure_finish_label ss tot))\<rparr> \<and>
         (point_label (last (ensure_finish_label ss tot)) = Some (str ''Finish'') \<longleftrightarrow>
            (\<exists>t k. tot = Some t \<and> t \<noteq> 0 \<and> point_km (last ss) = Some k \<and> k \<ge> t - 1.0) \<or>
            ((tot = None \<or> tot = Some 0) \<and>
             (\<exists>k. point_km (last ss) = Some k \<and> 41.5 \<le> k \<and> k \<le> 43.0))) \<and>
         (point_label (last (ensure_finish_label ss tot)) \<noteq> Some (str ''Finish'') \<longrightarrow>
            ensure_finish_label ss tot = ss)"
proof -
  have not_fin: "point_label (last ss) \<noteq> Some (str ''Finish'')"
    using assms(2) finish_is_finish_label by auto
  show ?thesis
    using assms not_fin
    by (auto simp: ensure_finish_label_def Let_def set_last_label_last set_last_label_butlast
        set_last_label_length split: option.splits)
qed

lemmas string_defs = str_def is_space_def is_digit_def strip_def lower_def lower_cp_def
  is_zwsp_def collapse_ws_def any_in_def FINISH_KEYWORDS_EN_def FINISH_KEYWORDS_KO_def

text \<open>The half marathon of 21.1 km whose last row is at 21.0 km: the label of that row
  becomes \<open>Finish\<close>, the rows before it stay.\<close>

theorem ensure_finish_label_spec_witness:
  "half_splits \<noteq> [] \<and>
   \<not> is_finish_label (Some (clean_text (Some (or_empty (point_label (last half_splits)))))) \<and>
   point_label (last (ensure_finish_label half_splits (Some 21.1))) = Some (str ''Finish'') \<and>
   butlast (ensure_finish_label half_splits (Some 21.1)) = butlast half_splits"
proof -
  have ne: "half_splits \<noteq> []"
    by (simp add: half_splits_def)
  have lbl: "\<not> is_finish_label (Some (clean_text (Some (or_empty (point_label (last half_splits))))))"
    by (simp add: half_splits_def mk_split_def is_finish_label_def clean_text_def or_empty_def
        string_defs)
  have km: "point_km (last half_splits) = Some 21"
    by (simp add: half_splits_def mk_split_def)
  have "\<exists>t k. Some 21.1 = Some t \<and> t \<noteq> 0 \<and> point_km (last half_splits) = Some k \<and> k \<ge> t - 1.0"
    by (rule exI [of _ "21.1"], rule exI [of _ 21]) (simp add: km)
  with ensure_finish_label_spec [OF ne lbl, of "Some 21.1"] ne lbl show ?thesis
    by blast
qed

text \<open>
  Claim C9. Label normalization is idempotent: for every split list and every total
  distance, known or not, a second \<open>ensure_finish_label\<close> changes nothing.
\<close>

theorem ensure_finish_label_idempotent:
  "ensure_finish_label (ensure_finish_label ss tot) tot = ensure_finish_label ss tot"
proof -
  consider "ensure_finish_label ss tot = ss"
    | "ss \<noteq> []" "ensure_finish_label ss tot = set_last_label ss (str ''Finish'')"
    using ensure_finish_label_cases by blast
  then show ?thesis
  proof cases
    case 1
    then show ?thesis by simp
  next
    case 2
    have "ensure_finish_label (set_last_label ss (str ''Finish'')) tot =
          set_last_label ss (str ''Finish'')"
      using finish_is_finish_label
      by (simp add: ensure_finish_label_def Let_def set_last_label_last set_last_label_nonempty)
    with 2 show ?thesis by simp
  qed
qed

text \<open>The same half marathon: the second pass returns what the first returned, a list
  that differs from the input.\<close>

theorem ensure_finish_label_idempotent_witness:
  "ensure_finish_label (ensure_finish_label half_splits (Some 21.1)) (Some 21.1) =
     ensure_finish_label half_splits (Some 21.1) \<and>
   ensure_finish_label half_splits (Some 21.1) \<noteq> half_splits"
proof -
  have "ensure_finish_label half_splits (Some 21.1) \<noteq> half_splits"
    by (simp add: ensure_finish_label_def Let_def half_splits_def mk_split_def
        is_finish_label_def clean_text_def or_empty_def set_last_label_def string_defs)
  with ensure_finish_label_idempotent [of half_splits "Some 21.1"] show ?thesis
    by simp
qed


section \<open>Finish detection\<close>

lemma looks_time_nonempty: "looks_time t \<Longrightarrow> t \<noteq> []"
  by (auto simp: looks_time_def)

text \<open>A split carries a time exactly when one of its two cleaned time fields is not
  empty.\<close>

lemma has_time_iff: "has_time s \<longleftrightarrow> clean (net_time s) \<noteq> [] \<or> clean (pass_clock s) \<noteq> []"
  by (auto simp: has_time_def Let_def dest: looks_time_nonempty)

lemma time_or_none_eq: "time_or_none t = (if t = [] then None else Some t)"
  by (auto simp: time_or_none_def dest: looks_time_nonempty)

lemma scan_near_Cons:
  "scan_near (s # rest) k tol =
     (if near_finish k tol s then Some (finished_at s) else scan_near rest k tol)"
  by (simp add: near_finish_def split: option.splits)

text \<open>The scan over the reversed list stops at the last accepted split of the list.\<close>

lemma scan_near_rev:
  "scan_near (rev ss) k tol =
     (if filter (near_finish k tol) ss = [] then None
      else Some (finished_at (last (filter (near_finish k tol) ss))))"
proof (induction ss rule: rev_induct)
  case Nil
  then show ?case by simp
next
  case (snoc x xs)
  have "scan_near (rev (xs @ [x])) k tol =
        (if near_finish k tol x then Some (finished_at x) else scan_near (rev xs) k tol)"
    by (simp add: scan_near_Cons del: scan_near.simps)
  with snoc.IH show ?case by simp
qed

text \<open>The tolerance table as a function of the snapped distance.\<close>

lemma lookup_tolerance_table:
  "lookup_tolerance DISTANCE_TOLERANCE x 0.5 =
     (if x < 0 then 0.5 else if x < 5 then 0.4 else if x < 10 then 0.6
      else if x < 15 then 1.0 else if x < 40 then 0.8 else 3)"
  by (simp add: DISTANCE_TOLERANCE_def)

lemma check_finish_status_unfold:
  assumes "ss \<noteq> []"
  shows "check_finish_status ss total_km =
     (let finish_rows = filter (\<lambda>s. is_finish_label_pred (point_label s)) ss;
          snapped_km = snapped_total total_km;
          tolerance = lookup_tolerance DISTANCE_TOLERANCE snapped_km 0.5;
          near_rows = filter (near_finish snapped_km tolerance) ss
      in if finish_rows \<noteq> [] \<and> has_time (last finish_rows) then finished_at (last finish_rows)
         else if near_rows \<noteq> [] then finished_at (last near_rows)
         else if mostly_done total_km (last ss) then finished_at (last ss)
         else not_finished)"
  using assms
  by (simp add: check_finish_status_def Let_def scan_near_rev mostly_done_def
      split: option.splits)

text \<open>
  Claim C1, amended. For every non-empty split list and total distance, finish
  detection applies its rules in order: (1) if the last split whose normalized label
  matches a finish keyword carries a time (a time-shaped or any non-empty \<open>net_time\<close>
  or \<open>pass_clock\<close>), the participant is finished at that row; (2) otherwise, scanning in
  reverse, the first split whose distance (\<open>point_km\<close>, or the distance read from the
  label when \<open>point_km\<close> is missing or zero) is within the tolerance of the snapped
  total and which carries a time is the finish row, the tolerance being that of the
  table at the snapped total (0.5 below the table); (3) otherwise, if the total is
  positive, the distance of the last split divided by the total is at least 0.9 and it
  carries a time, the participant is finished at the last split; (4) otherwise the
  participant is not finished.
\<close>

theorem check_finish_status_rules:
  assumes "ss \<noteq> []"
  shows "check_finish_status ss total_km =
     (let finish_rows = filter (\<lambda>s. is_finish_label_pred (point_label s)) ss;
          snapped_km = snapped_total total_km;
          tolerance = (if snapped_km < 0 then 0.5 else if snapped_km < 5 then 0.4
                       else if snapped_km < 10 then 0.6 else if snapped_km < 15 then 1.0
                       else if snapped_km < 40 then 0.8 else 3);
          near_rows = filter (near_finish snapped_km tolerance) ss
      in if finish_rows \<noteq> [] \<and> has_time (last finish_rows) then finished_at (last finish_rows)
         else if near_rows \<noteq> [] then finished_at (last near_rows)
         else if mostly_done total_km (last ss) then finished_at (last ss)
         else not_finished)"
proof -
  have "lookup_tolerance DISTANCE_TOLERANCE (snapped_total total_km) 0.5 =
        (if snapped_total total_km < 0 then 0.5 else if snapped_total total_km < 5 then 0.4
         else if snapped_total total_km < 10 then 0.6 else if snapped_total total_km < 15 then 1.0
         else if snapped_total total_km < 40 then 0.8 else 3)"
    by (rule lookup_tolerance_table)
  then show ?thesis
    unfolding check_finish_status_unfold [OF assms] Let_def by (simp only:)
qed

lemmas eval_defs = string_defs clean_def is_finish_label_pred_def has_time_def looks_time_def
  mk_split_def two_finish_rows_def far_rows_def half_splits_def split_km_def km_from_label_def
  km_match_here_def number_prefix_def is_km_def decimal_val_def digits_val_def km_fullmatch_def
  snapped_total_def snap_distance_def min_key_def STANDARD_DISTANCES_def DISTANCE_TOLERANCE_def
  time_match_here_def minutes_ok_def time_tail_ok_def frac_ok_def boundary_after_word_def
  is_word_def near_finish_def mostly_done_def finished_at_def time_or_none_def not_finished_def

text \<open>The half marathon in progress, before label normalization: no label is a finish
  label, and rule 2 finds the row at 21.0 km within 0.8 km of 21.1 km.\<close>

theorem check_finish_status_rules_witness:
  "half_splits \<noteq> [] \<and>
   check_finish_status half_splits 21.1 =
     \<lparr>finished = True, finish_point = Some (str ''21.0km''),
      finish_net = Some (str ''01:45:00''), finish_clock = Some (str ''10:45:00'')\<rparr>"
proof -
  have ne: "half_splits \<noteq> []"
    by (simp add: half_splits_def)
  have "check_finish_status half_splits 21.1 =
     (let finish_rows = filter (\<lambda>s. is_finish_label_pred (point_label s)) half_splits;
          snapped_km = snapped_total 21.1;
          tolerance = (if snapped_km < 0 then 0.5 else if snapped_km < 5 then 0.4
                       else if snapped_km < 10 then 0.6 else if snapped_km < 15 then 1.0
                       else if snapped_km < 40 then 0.8 else 3);
          near_rows = filter (near_finish snapped_km tolerance) half_splits
      in if finish_rows \<noteq> [] \<and> has_time (last finish_rows) then finished_at (last finish_rows)
         else if near_rows \<noteq> [] then finished_at (last near_rows)
         else if mostly_done 21.1 (last half_splits) then finished_at (last half_splits)
         else not_finished)"
    by (rule check_finish_status_rules [OF ne])
  also have "\<dots> =
     \<lparr>finished = True, finish_point = Some (str ''21.0km''),
      finish_net = Some (str ''01:45:00''), finish_clock = Some (str ''10:45:00'')\<rparr>"
    by (simp add: eval_defs)
  finally show ?thesis
    using ne by simp
qed

text \<open>
  Claim C1 as stated fails twice. Rule 1: in \<open>two_finish_rows\<close> the first split has a
  finish label and carries its times, yet the participant is not finished, because
  only the last finish-labelled row is looked at. Rule 2: in \<open>far_rows\<close>, with a total
  of 21.5 km (snapped to 21.1 km, tolerance 0.8 km), the first split is 0.7 km from
  the total and carries its times, yet the participant is not finished, because the
  distance is taken from the snapped total.
\<close>

theorem check_finish_status_counterexample:
  "is_finish_label_pred (point_label (two_finish_rows ! 0)) \<and>
   has_time (two_finish_rows ! 0) \<and>
   \<not> finished (check_finish_status two_finish_rows 21.1) \<and>
   snapped_total 21.5 = 21.1 \<and>
   lookup_tolerance DISTANCE_TOLERANCE (snapped_total 21.5) 0.5 = 0.8 \<and>
   split_km (far_rows ! 0) = Some 22.2 \<and> \<bar>22.2 - 21.5\<bar> \<le> (0.8 :: rat) \<and>
   has_time (far_rows ! 0) \<and>
   \<not> finished (check_finish_status far_rows 21.5)"
proof -
  have a: "is_finish_label_pred (point_label (two_finish_rows ! 0)) \<and>
           has_time (two_finish_rows ! 0)"
    by (simp add: eval_defs)
  have b: "\<not> finished (check_finish_status two_finish_rows 21.1)"
    by (simp add: check_finish_status_def eval_defs)
  have c: "snapped_total 21.5 = 21.1 \<and>
           lookup_tolerance DISTANCE_TOLERANCE (snapped_total 21.5) 0.5 = 0.8"
    by (simp add: eval_defs)
  have d: "split_km (far_rows ! 0) = Some 22.2 \<and> \<bar>22.2 - 21.5\<bar> \<le> (0.8 :: rat) \<and>
           has_time (far_rows ! 0)"
    by (simp add: eval_defs)
  have e: "\<not> finished (check_finish_status far_rows 21.5)"
    by (simp add: check_finish_status_def eval_defs)
  from a b c d e show ?thesis by blast
qed


section \<open>The adaptive scheduler\<close>

lemma float_finite_pow2: 
  assumes "f < 1024" 
  shows "float_finite (2 ^ f)"
proof -
  from assms have "f \<le> 1023" by simp
  then have "(2::rat) ^ f \<le> 2 ^ 1023"
    by (intro power_increasing) simp_all
  moreover have "(2::rat) ^ 1023 < 2 ^ 1024 - 2 ^ 970"
    by simp
  ultimately show ?thesis
    by (simp add: float_finite_def)
qed

lemma float_pow_2: "f < 1024 \<Longrightarrow> float_pow 2 f = Inr (2 ^ f)"
  by (simp add: float_pow_def float_finite_pow2)

text \<open>Admission by the adaptive scheduler, for a marathon with failures: both the
  inherited interval and the backoff must have passed.\<close>

lemma should_run_marathon_failures:
  assumes "backoff_multiplier s = 2" and "failure_count s mid = Some f" and "0 < f" and "f < 1024"
  shows "should_run_marathon s mid refresh now =
           Inr (now - get_or (last_marathon_run s) mid 0 \<ge>
                  max (of_int (max (min_marathon_interval (config s)) refresh))
                      (min (of_int refresh * 2 ^ f) (max_backoff s)))"
  using assms
  by (auto simp: should_run_marathon_def base_should_run_marathon_def get_or_def Let_def
      float_pow_2)

lemma should_run_marathon_no_failures:
  assumes "failure_count s mid = None"
  shows "should_run_marathon s mid refresh now =
           Inr (now - get_or (last_marathon_run s) mid 0 \<ge>
                  of_int (max (min_marathon_interval (config s)) refresh))"
  using assms
  by (auto simp: should_run_marathon_def base_should_run_marathon_def get_or_def Let_def)

lemma get_backoff_time_failures:
  assumes "backoff_multiplier s = 2" and "failure_count s mid = Some f" and "0 < f" and "f < 1024"
  shows "get_backoff_time s mid refresh = Inr (min (of_int refresh * 2 ^ f) (max_backoff s))"
  using assms by (simp add: get_backoff_time_def get_or_def Let_def float_pow_2)

lemma record_failure_fields:
  "failure_count (record_failure s mid t) mid = Some (get_or (failure_count s) mid 0 + 1)"
  "last_marathon_run (record_failure s mid t) mid = Some t"
  "config (record_failure s mid t) = config s"
  "max_backoff (record_failure s mid t) = max_backoff s"
  "backoff_multiplier (record_failure s mid t) = backoff_multiplier s"
  "m \<noteq> mid \<Longrightarrow> failure_count (record_failure s mid t) m = failure_count s m"
  "m \<noteq> mid \<Longrightarrow> last_marathon_run (record_failure s mid t) m = last_marathon_run s m"
  by (simp_all add: record_failure_def mark_marathon_run_def)

lemma record_success_fields:
  "failure_count (record_success s mid t) mid = None"
  "last_marathon_run (record_success s mid t) mid = Some t"
  "config (record_success s mid t) = config s"
  "max_backoff (record_success s mid t) = max_backoff s"
  "backoff_multiplier (record_success s mid t) = backoff_multiplier s"
  "m \<noteq> mid \<Longrightarrow> failure_count (record_success s mid t) m = failure_count s m"
  "m \<noteq> mid \<Longrightarrow> last_marathon_run (record_success s mid t) m = last_marathon_run s m"
  by (simp_all add: record_success_def mark_marathon_run_def)

text \<open>
  Claim C2, amended. For an adaptive scheduler as the engine builds it (minimum
  interval 5, backoff cap 300, multiplier 2), every marathon and every \<open>refresh_sec\<close>:
  with a failure count \<open>f\<close> above 0 and below 1024, the marathon is admitted if and only
  if \<open>now - last_run\<close> is at least the larger of \<open>max(5, refresh_sec)\<close> and
  \<open>refresh_sec * 2 ^ f\<close> capped at 300; for \<open>refresh_sec\<close> between 5 and 300 that is: if
  and only if \<open>now - last_run\<close> is at least \<open>refresh_sec * 2 ^ f\<close> capped at 300.
  \<open>record_success\<close> resets the failure count to zero and \<open>record_failure\<close> increments
  it by one, both setting \<open>last_run\<close>. With \<open>refresh_sec = 60\<close>, three
  \<open>record_failure\<close> calls in a row give the intervals 120, 240 and 300, and a
  \<open>record_success\<close> after them restores admission at \<open>last_run + 60\<close>.
\<close>

theorem adaptive_backoff:
  assumes cfg: "min_marathon_interval (config s) = 5" "max_backoff s = 300"
      "backoff_multiplier s = 2"
  shows "(\<forall>f. failure_count s mid = Some f \<and> 0 < f \<and> f < 1024 \<longrightarrow>
            should_run_marathon s mid refresh now =
              Inr (now - get_or (last_marathon_run s) mid 0 \<ge>
                     max (of_int (max 5 refresh)) (min (of_int refresh * 2 ^ f) 300)) \<and>
            (5 \<le> refresh \<and> refresh \<le> 300 \<longrightarrow>
               should_run_marathon s mid refresh now =
                 Inr (now - get_or (last_marathon_run s) mid 0 \<ge>
                        min (of_int refresh * 2 ^ f) 300))) \<and>
         get_or (failure_count (record_success s mid t)) mid 0 = 0 \<and>
         last_marathon_run (record_success s mid t) mid = Some t \<and>
         get_or (failure_count (record_failure s mid t)) mid 0 =
           get_or (failure_count s) mid 0 + 1 \<and>
         last_marathon_run (record_failure s mid t) mid = Some t \<and>
         (failure_count s mid = None \<longrightarrow>
            (let s1 = record_failure s mid t1;
                 s2 = record_failure s1 mid t2;
                 s3 = record_failure s2 mid t3;
                 s4 = record_success s3 mid t4
             in get_backoff_time s1 mid 60 = Inr 120 \<and>
                get_backoff_time s2 mid 60 = Inr 240 \<and>
                get_backoff_time s3 mid 60 = Inr 300 \<and>
                should_run_marathon s1 mid 60 now = Inr (now - t1 \<ge> 120) \<and>
                should_run_marathon s2 mid 60 now = Inr (now - t2 \<ge> 240) \<and>
                should_run_marathon s3 mid 60 now = Inr (now - t3 \<ge> 300) \<and>
                should_run_marathon s4 mid 60 now = Inr (now - t4 \<ge> 60)))"
proof -
  have general: "should_run_marathon s mid refresh now =
              Inr (now - get_or (last_marathon_run s) mid 0 \<ge>
                     max (of_int (max 5 refresh)) (min (of_int refresh * 2 ^ f) 300))"
    if "failure_count s mid = Some f" "0 < f" "f < 1024" for f
    using should_run_marathon_failures [OF cfg(3) that, of refresh now] cfg by simp
  have in_range: "should_run_marathon s mid refresh now =
                 Inr (now - get_or (last_marathon_run s) mid 0 \<ge>
                        min (of_int refresh * 2 ^ f) 300)"
    if f: "failure_count s mid = Some f" "0 < f" "f < 1024" and r: "5 \<le> refresh" "refresh \<le> 300" for f
  proof -
    have "(1::rat) \<le> 2 ^ f" by simp
    with r have "(of_int refresh :: rat) \<le> of_int refresh * 2 ^ f"
      by (simp add: mult_le_cancel_left1)
    moreover from r have "(of_int refresh :: rat) \<le> 300" by simp
    ultimately have "(of_int (max 5 refresh) :: rat) \<le> min (of_int refresh * 2 ^ f) 300"
      using r by simp
    then have "max (of_int (max 5 refresh)) (min (of_int refresh * 2 ^ f) 300) =
               min (of_int refresh * 2 ^ f) (300::rat)"
      by (rule max_absorb2)
    with general [OF f] show ?thesis by simp
  qed
  have succ: "get_or (failure_count (record_success s mid t)) mid 0 = 0"
    "last_marathon_run (record_success s mid t) mid = Some t"
    by (simp_all add: record_success_fields get_or_def)
  have fail: "get_or (failure_count (record_failure s mid t)) mid 0 =
           get_or (failure_count s) mid 0 + 1"
    "last_marathon_run (record_failure s mid t) mid = Some t"
    by (simp_all add: record_failure_fields get_or_def)
  have scenario: "(let s1 = record_failure s mid t1;
                 s2 = record_failure s1 mid t2;
                 s3 = record_failure s2 mid t3;
                 s4 = record_success s3 mid t4
             in get_backoff_time s1 mid 60 = Inr 120 \<and>
                get_backoff_time s2 mid 60 = Inr 240 \<and>
                get_backoff_time s3 mid 60 = Inr 300 \<and>
                should_run_marathon s1 mid 60 now = Inr (now - t1 \<ge> 120) \<and>
                should_run_marathon s2 mid 60 now = Inr (now - t2 \<ge> 240) \<and>
                should_run_marathon s3 mid 60 now = Inr (now - t3 \<ge> 300) \<and>
                should_run_marathon s4 mid 60 now = Inr (now - t4 \<ge> 60))"
    if fresh: "failure_count s mid = None"
  proof -
    define s1 where "s1 = record_failure s mid t1"
    define s2 where "s2 = record_failure s1 mid t2"
    define s3 where "s3 = record_failure s2 mid t3"
    define s4 where "s4 = record_success s3 mid t4"
    have f1: "failure_count s1 mid = Some 1" "last_marathon_run s1 mid = Some t1"
      and c1: "min_marathon_interval (config s1) = 5" "max_backoff s1 = 300" "backoff_multiplier s1 = 2"
      using fresh cfg by (simp_all add: s1_def record_failure_fields get_or_def)
    have f2: "failure_count s2 mid = Some 2" "last_marathon_run s2 mid = Some t2"
      and c2: "min_marathon_interval (config s2) = 5" "max_backoff s2 = 300" "backoff_multiplier s2 = 2"
      using f1 c1 by (simp_all add: s2_def record_failure_fields get_or_def)
    have f3: "failure_count s3 mid = Some 3" "last_marathon_run s3 mid = Some t3"
      and c3: "min_marathon_interval (config s3) = 5" "max_backoff s3 = 300" "backoff_multiplier s3 = 2"
      using f2 c2 by (simp_all add: s3_def record_failure_fields get_or_def)
    have f4: "failure_count s4 mid = None" "last_marathon_run s4 mid = Some t4"
      and c4: "min_marathon_interval (config s4) = 5" 
      using c3 by (simp_all add: s4_def record_success_fields)
    have b1: "get_backoff_time s1 mid 60 = Inr 120"
      using get_backoff_time_failures [OF c1(3) f1(1), of 60] c1 by simp
    have b2: "get_backoff_time s2 mid 60 = Inr 240"
      using get_backoff_time_failures [OF c2(3) f2(1), of 60] c2 by simp
    have b3: "get_backoff_time s3 mid 60 = Inr 300"
      using get_backoff_time_failures [OF c3(3) f3(1), of 60] c3 by simp
    have r1: "should_run_marathon s1 mid 60 now = Inr (now - t1 \<ge> 120)"
      using should_run_marathon_failures [OF c1(3) f1(1), of 60 now] c1 f1 by (simp add: get_or_def)
    have r2: "should_run_marathon s2 mid 60 now = Inr (now - t2 \<ge> 240)"
      using should_run_marathon_failures [OF c2(3) f2(1), of 60 now] c2 f2 by (simp add: get_or_def)
    have r3: "should_run_marathon s3 mid 60 now = Inr (now - t3 \<ge> 300)"
      using should_run_marathon_failures [OF c3(3) f3(1), of 60 now] c3 f3 by (simp add: get_or_def)
    have r4: "should_run_marathon s4 mid 60 now = Inr (now - t4 \<ge> 60)"
      using should_run_marathon_no_failures [OF f4(1), of 60 now] c4 f4 by (simp add: get_or_def)
    from b1 b2 b3 r1 r2 r3 r4 show ?thesis
      unfolding Let_def s1_def s2_def s3_def s4_def by blast
  qed
  from general in_range succ fail scenario show ?thesis
    by blast
qed


lemma failed_once_fields:
  "min_marathon_interval (config failed_once) = 5" "max_backoff failed_once = 300"
  "backoff_multiplier failed_once = 2" "failure_count failed_once 1 = Some 1"
  "last_marathon_run failed_once 1 = Some 0"
  by (simp_all add: failed_once_def record_failure_fields AdaptiveScheduler_def
      default_config_def get_or_def)

text \<open>One failure at time 0 with \<open>refresh_sec = 60\<close>: refused at 119, admitted at 120.\<close>

theorem adaptive_backoff_witness:
  "min_marathon_interval (config failed_once) = 5 \<and> max_backoff failed_once = 300 \<and>
   backoff_multiplier failed_once = 2 \<and> failure_count failed_once 1 = Some 1 \<and>
   should_run_marathon failed_once 1 60 119 = Inr False \<and>
   should_run_marathon failed_once 1 60 120 = Inr True"
proof -
  have a: "should_run_marathon failed_once 1 60 119 = Inr False"
    using adaptive_backoff [OF failed_once_fields(1-3), of 1 60 119] failed_once_fields
    by (simp add: get_or_def)
  have b: "should_run_marathon failed_once 1 60 120 = Inr True"
    using adaptive_backoff [OF failed_once_fields(1-3), of 1 60 120] failed_once_fields
    by (simp add: get_or_def)
  from a b failed_once_fields show ?thesis by simp
qed

text \<open>
  Claim C2 as stated fails for \<open>refresh_sec = 400\<close>: after one failure at time 0 the
  capped backoff is 300 and 350 seconds have passed, yet the marathon is not admitted,
  because the inherited check asks for \<open>max(5, refresh_sec) = 400\<close> seconds.
\<close>

theorem adaptive_backoff_counterexample:
  "get_or (failure_count failed_once) 1 0 = 1 \<and>
   350 - get_or (last_marathon_run failed_once) 1 0 \<ge> min (of_int 400 * 2 ^ 1) (300 :: rat) \<and>
   should_run_marathon failed_once 1 400 350 = Inr False"
  by (simp add: failed_once_fields get_or_def should_run_marathon_def
      base_should_run_marathon_def)


section \<open>TLS verification per host\<close>

text \<open>
  Claim C7, amended. TLS verification is decided per host: with the global toggle on
  (\<open>SMARTCHIP_INSECURE_SSL\<close> other than \<open>1\<close>), verification is disabled exactly for
  the hosts whose lowered name equals one of the configured comma-separated entries
  (each stripped and lowered, empty ones dropped), and every other host verifies; with
  the toggle off no host verifies. An entry is an exact host name, not a suffix.
\<close>

theorem verify_for_host_exact:
  "verify_for_host hosts_env ssl_env h \<longleftrightarrow>
     ssl_env \<noteq> Some (str ''1'') \<and>
     \<not> (\<exists>e \<in> set (split_on 44 (case hosts_env of None \<Rightarrow> default_insec | Some v \<Rightarrow> v)).
          strip e \<noteq> [] \<and> lower (or_empty h) = lower (strip e))"
  by (auto simp: verify_for_host_def INSECURE_HOSTS_def VERIFY_SSL_DEFAULT_def str_def
      split: option.splits)

lemma insecure_default:
  "INSECURE_HOSTS None =
     [str ''smartchip.co.kr'', str ''www.smartchip.co.kr'', str ''myresult.co.kr'',
      str ''image.smartchip.co.kr'', str ''img.spct.kr'']"
  by (simp add: INSECURE_HOSTS_def default_insec_def string_defs)

text \<open>With nothing set in the environment: \<open>SmartChip.co.kr\<close> is not verified,
  \<open>google.com\<close> is.\<close>

theorem verify_for_host_exact_witness:
  "\<not> verify_for_host None None (Some (str ''SmartChip.co.kr'')) \<and>
   verify_for_host None None (Some (str ''google.com''))"
proof -
  have a: "lower (or_empty (Some (str ''SmartChip.co.kr''))) \<in> set (INSECURE_HOSTS None)"
    unfolding insecure_default by (simp add: or_empty_def string_defs)
  have b: "lower (or_empty (Some (str ''google.com''))) \<notin> set (INSECURE_HOSTS None)"
    unfolding insecure_default by (simp add: or_empty_def string_defs)
  from a b verify_for_host_exact [of None None "Some (str ''SmartChip.co.kr'')"]
    verify_for_host_exact [of None None "Some (str ''google.com'')"]
  show ?thesis
    by (auto simp: INSECURE_HOSTS_def)
qed

text \<open>
  Claim C7 as stated fails for \<open>api.smartchip.co.kr\<close>: the host ends with the
  configured entry \<open>smartchip.co.kr\<close>, the global toggle is on, and the host is
  verified all the same.
\<close>

theorem verify_for_host_suffix_counterexample:
  "ends_with (str ''api.smartchip.co.kr'') (str ''smartchip.co.kr'') \<and>
   str ''smartchip.co.kr'' \<in> set (INSECURE_HOSTS None) \<and>
   VERIFY_SSL_DEFAULT None \<and>
   verify_for_host None None (Some (str ''api.smartchip.co.kr''))"
proof -
  have a: "ends_with (str ''api.smartchip.co.kr'') (str ''smartchip.co.kr'')"
    by (simp add: ends_with_def str_def)
  have b: "str ''smartchip.co.kr'' \<in> set (INSECURE_HOSTS None)"
    unfolding insecure_default by simp
  have c: "VERIFY_SSL_DEFAULT None"
    by (simp add: VERIFY_SSL_DEFAULT_def str_def)
  have d: "verify_for_host None None (Some (str ''api.smartchip.co.kr''))"
    unfolding verify_for_host_def insecure_default
    by (simp add: c or_empty_def string_defs)
  from a b c d show ?thesis by blast
qed

section \<open>The image queue\<close>

lemma asset_jobs_finished:
  "j \<in> set (asset_jobs m bibs r a) \<Longrightarrow> job_pid j = pid r \<and> is_finished (splits r)"
  by (auto simp: asset_jobs_def job_pid_def split: option.splits if_splits)

lemma is_finished_iff: "is_finished ss \<longleftrightarrow> (\<exists>s \<in> set ss. finish_or_dochak s)"
  by (simp add: is_finished_def finish_or_dochak_def list_ex_iff Let_def)

text \<open>
  Claim C10. During batch saving, every job put on the image queue belongs to a result
  of the same participant with at least one split whose label contains \<open>finish\<close>
  (in any case) or the Hangul word do-chak; so a participant none of whose splits has
  such a label, whatever other finish keyword they hold, gets no job in that tick.
\<close>

theorem image_job_needs_finish_label:
  "(\<forall>j \<in> set (image_queue_puts results m ps).
      \<exists>r \<in> set results. pid r = job_pid j \<and> (\<exists>s \<in> set (splits r). finish_or_dochak s)) \<and>
   ((\<forall>r \<in> set results. pid r = p \<longrightarrow> (\<forall>s \<in> set (splits r). \<not> finish_or_dochak s)) \<longrightarrow>
      (\<forall>j \<in> set (image_queue_puts results m ps). job_pid j \<noteq> p))"
proof -
  have main: "\<exists>r \<in> set results. pid r = job_pid j \<and> (\<exists>s \<in> set (splits r). finish_or_dochak s)"
    if "j \<in> set (image_queue_puts results m ps)" for j
  proof -
    from that obtain r a where r: "r \<in> set results" and "a \<in> set (assets r)"
      and "j \<in> set (asset_jobs m (pid_to_bib ps) r a)"
      by (auto simp: image_queue_puts_def)
    then have "job_pid j = pid r" "is_finished (splits r)"
      using asset_jobs_finished by blast+
    with r show ?thesis
      by (auto simp: is_finished_iff)
  qed
  then show ?thesis by metis
qed

text \<open>Participant 1 finishes under the label \<open>Goal\<close>, a finish label for finish
  detection, participant 2 under \<open>FINISH\<close>; both have a certificate. Only participant
  2 gets a job.\<close>

theorem image_job_needs_finish_label_witness:
  "is_finish_label_pred (point_label (splits goal_result ! 0)) \<and>
   \<not> finish_or_dochak (splits goal_result ! 0) \<and>
   finish_or_dochak (splits finish_result ! 0) \<and>
   list_all (\<lambda>j. job_pid j \<noteq> 1)
     (image_queue_puts [goal_result, finish_result] demo_marathon demo_participants) \<and>
   image_queue_puts [goal_result, finish_result] demo_marathon demo_participants =
     [(Some (str ''img.spct.kr''), str ''2025'', str ''102'', str ''https://img.spct.kr/a.jpg'',
       str ''https://x.kr/r?b=102'', 2)]"
proof -
  have q: "image_queue_puts [goal_result, finish_result] demo_marathon demo_participants =
     [(Some (str ''img.spct.kr''), str ''2025'', str ''102'', str ''https://img.spct.kr/a.jpg'',
       str ''https://x.kr/r?b=102'', 2)]"
    by (simp add: image_queue_puts_def asset_jobs_def goal_result_def finish_result_def
        cert_asset_def demo_marathon_def demo_participants_def pid_to_bib_def is_finished_def
        mk_split_def or_empty_def build_url_def replace_def isdigit_def zfill6_def string_defs)
  have g: "is_finish_label_pred (point_label (splits goal_result ! 0))"
    by (simp add: goal_result_def mk_split_def is_finish_label_pred_def clean_def string_defs)
  have ng: "\<not> finish_or_dochak (splits goal_result ! 0)"
    by (simp add: goal_result_def mk_split_def finish_or_dochak_def or_empty_def string_defs)
  have f: "finish_or_dochak (splits finish_result ! 0)"
    by (simp add: finish_result_def mk_split_def finish_or_dochak_def or_empty_def string_defs)
  have "\<forall>r \<in> set [goal_result, finish_result].
          pid r = 1 \<longrightarrow> (\<forall>s \<in> set (splits r). \<not> finish_or_dochak s)"
    using ng by (simp add: goal_result_def finish_result_def)
  with image_job_needs_finish_label [of "[goal_result, finish_result]" demo_marathon
      demo_participants 1]
  have "\<forall>j \<in> set (image_queue_puts [goal_result, finish_result] demo_marathon
          demo_participants). job_pid j \<noteq> 1"
    by blast
  then have "list_all (\<lambda>j. job_pid j \<noteq> 1)
     (image_queue_puts [goal_result, finish_result] demo_marathon demo_participants)"
    by (simp only: list_all_iff)
  with q g ng f show ?thesis by blast
qed


section \<open>Upserts of splits\<close>

lemma frame_kept_refl: "frame_kept t t"
  by (simp add: frame_kept_def)

lemma frame_kept_trans: "frame_kept t u \<Longrightarrow> frame_kept u v \<Longrightarrow> frame_kept t v"
  by (auto simp: frame_kept_def)

text \<open>One upsert: the frame, the rows it leaves alone, and the rows of its key.\<close>

lemma upsert_split_frame:
  assumes "upsert_split b t = Inr t'"
  shows "frame_kept t t'"
  using assms
  by (auto simp: upsert_split_def frame_kept_def nth_append split: option.splits if_splits)

lemma upsert_split_other:
  assumes "upsert_split b t = Inr t'" and "i < length t"
    and "\<not> (participant_id (t ! i) = b_pid b \<and> Some (db_point_label (t ! i)) = b_label b)"
  shows "t' ! i = t ! i"
  using assms
  by (auto simp: upsert_split_def same_key_def nth_append split: option.splits if_splits)

text \<open>The two outcomes of an upsert with a label.\<close>

lemma upsert_split_cases:
  assumes "upsert_split b t = Inr t'"
  obtains l where "b_label b = Some l"
      "\<exists>x \<in> set t. participant_id x = b_pid b \<and> db_point_label x = l"
      "t' = map (\<lambda>r. if participant_id r = b_pid b \<and> db_point_label r = l
                        then r\<lparr>db_net_time := b_net b, db_pass_clock := b_clock b,
                               db_pace := b_pace b, seen_at := Some (b_seen b)\<rparr>
                        else r) t"
  | l where "b_label b = Some l"
      "\<forall>x \<in> set t. \<not> (participant_id x = b_pid b \<and> db_point_label x = l)"
      "t' = t @ [\<lparr>participant_id = b_pid b, db_point_label = l, db_point_km = b_km b,
                   db_net_time = b_net b, db_pass_clock = b_clock b, db_pace = b_pace b,
                   seen_at = Some (b_seen b)\<rparr>]"
  using assms
  by (auto simp: upsert_split_def same_key_def list_ex_iff split: option.splits if_splits)

lemma upsert_split_key:
  assumes "upsert_split b t = Inr t'" and "b_label b = Some l"
  shows "(\<exists>r \<in> set t'. participant_id r = b_pid b \<and> db_point_label r = l) \<and>
         (\<forall>r \<in> set t'. participant_id r = b_pid b \<and> db_point_label r = l \<longrightarrow>
                       seen_at r = Some (b_seen b))"
  using assms(1)
proof (cases rule: upsert_split_cases)
  case (1 l')
  with assms(2) have l: "l' = l" by simp
  from 1(2) obtain x where x: "x \<in> set t" "participant_id x = b_pid b" "db_point_label x = l"
    unfolding l by blast
  define u where "u = x\<lparr>db_net_time := b_net b, db_pass_clock := b_clock b,
           db_pace := b_pace b, seen_at := Some (b_seen b)\<rparr>"
  define f :: "split_row \<Rightarrow> split_row" where "f = (\<lambda>r. if participant_id r = b_pid b \<and> db_point_label r = l
                        then r\<lparr>db_net_time := b_net b, db_pass_clock := b_clock b,
                               db_pace := b_pace b, seen_at := Some (b_seen b)\<rparr>
                        else r)"
  have t': "t' = map f t"
    by (simp only: 1(3) l f_def)
  have "f x = u"
    using x by (simp add: f_def u_def)
  moreover have "f x \<in> set t'"
    unfolding t' using x(1) by simp
  ultimately have "u \<in> set t'"
    by simp
  moreover have "participant_id u = b_pid b" "db_point_label u = l"
    using x by (simp_all add: u_def)
  ultimately have ex: "\<exists>r \<in> set t'. participant_id r = b_pid b \<and> db_point_label r = l"
    by blast
  have "seen_at r = Some (b_seen b)"
    if "r \<in> set t'" "participant_id r = b_pid b" "db_point_label r = l" for r
  proof -
    from that(1) obtain y where "y \<in> set t" "r = f y"
      unfolding t' by auto
    with that(2,3) show ?thesis
      by (cases "participant_id y = b_pid b \<and> db_point_label y = l") (simp_all add: f_def)
  qed
  with ex show ?thesis by blast
next
  case (2 l')
  with assms(2) have l: "l' = l" by simp
  show ?thesis
    using 2(2) unfolding 2(3) l by auto
qed

lemma upsert_split_rows:
  assumes "upsert_split b t = Inr t'" and "r' \<in> set t'"
    and "\<not> (participant_id r' = b_pid b \<and> Some (db_point_label r') = b_label b)"
  shows "r' \<in> set t"
  using assms
  by (auto simp: upsert_split_def same_key_def split: option.splits if_splits)

lemma upsert_split_keeps_key:
  assumes "upsert_split b t = Inr t'" and "r \<in> set t"
  shows "\<exists>r' \<in> set t'. participant_id r' = participant_id r \<and> db_point_label r' = db_point_label r"
  using assms(1)
proof (cases rule: upsert_split_cases)
  case (1 l)
  show ?thesis
  proof (cases "participant_id r = b_pid b \<and> db_point_label r = l")
    case True
    define u where "u = r\<lparr>db_net_time := b_net b, db_pass_clock := b_clock b,
           db_pace := b_pace b, seen_at := Some (b_seen b)\<rparr>"
    define f :: "split_row \<Rightarrow> split_row" where "f = (\<lambda>r. if participant_id r = b_pid b \<and> db_point_label r = l
                        then r\<lparr>db_net_time := b_net b, db_pass_clock := b_clock b,
                               db_pace := b_pace b, seen_at := Some (b_seen b)\<rparr>
                        else r)"
    have t': "t' = map f t"
      by (simp only: 1(3) f_def)
    have "f r = u"
      using True by (simp add: f_def u_def)
    moreover have "f r \<in> set t'"
      unfolding t' using assms(2) by simp
    ultimately have "u \<in> set t'"
      by simp
    moreover have "participant_id u = participant_id r" "db_point_label u = db_point_label r"
      by (simp_all add: u_def)
    ultimately show ?thesis by blast
  next
    case False
    then have "r \<in> set t'"
      unfolding 1(3) using assms(2) by (simp add: image_iff)
    then show ?thesis by blast
  qed
next
  case (2 l)
  then show ?thesis using assms(2) by auto
qed

lemma upsert_split_ok: "b_label b \<noteq> None \<Longrightarrow> \<exists>t'. upsert_split b t = Inr t'"
  by (auto simp: upsert_split_def)

text \<open>A batch of upserts.\<close>

lemma executemany_ok:
  "\<forall>b \<in> set bs. b_label b \<noteq> None \<Longrightarrow> \<exists>t'. executemany bs t = Inr t'"
proof (induction bs arbitrary: t)
  case Nil
  then show ?case by simp
next
  case (Cons b bs)
  then obtain t1 where "upsert_split b t = Inr t1"
    using upsert_split_ok [of b t] by auto
  with Cons show ?case by simp
qed

lemma executemany_frame: "executemany bs t = Inr t' \<Longrightarrow> frame_kept t t'"
proof (induction bs arbitrary: t)
  case Nil
  then show ?case by (simp add: frame_kept_refl)
next
  case (Cons b bs)
  then obtain t1 where t1: "upsert_split b t = Inr t1" "executemany bs t1 = Inr t'"
    by (auto split: sum.splits)
  from t1(1) have "frame_kept t t1" by (rule upsert_split_frame)
  moreover from t1(2) have "frame_kept t1 t'" by (rule Cons.IH)
  ultimately show ?case by (rule frame_kept_trans)
qed

lemma executemany_other:
  assumes "executemany bs t = Inr t'" and "i < length t"
    and "\<forall>b \<in> set bs. \<not> (participant_id (t ! i) = b_pid b \<and>
                                Some (db_point_label (t ! i)) = b_label b)"
  shows "t' ! i = t ! i"
  using assms
proof (induction bs arbitrary: t)
  case Nil
  then show ?case by simp
next
  case (Cons b bs)
  then obtain t1 where t1: "upsert_split b t = Inr t1" "executemany bs t1 = Inr t'"
    by (auto split: sum.splits)
  have same: "t1 ! i = t ! i"
    using t1(1) Cons.prems(2,3) by (intro upsert_split_other) auto
  have "frame_kept t t1"
    using t1(1) by (rule upsert_split_frame)
  with Cons.prems(2) have len: "i < length t1"
    by (simp add: frame_kept_def)
  have "t' ! i = t1 ! i"
    using t1(2) len Cons.prems(3) by (intro Cons.IH) (simp_all add: same)
  with same show ?case by simp
qed

text \<open>Later statements of the batch keep what an earlier one has set for a key.\<close>

lemma executemany_keeps_seen:
  assumes "executemany bs t = Inr t'" and "\<forall>b \<in> set bs. b_seen b = now"
    and "\<exists>r \<in> set t. participant_id r = p \<and> db_point_label r = l"
    and "\<forall>r \<in> set t. participant_id r = p \<and> db_point_label r = l \<longrightarrow> seen_at r = Some now"
  shows "(\<exists>r \<in> set t'. participant_id r = p \<and> db_point_label r = l) \<and>
         (\<forall>r \<in> set t'. participant_id r = p \<and> db_point_label r = l \<longrightarrow> seen_at r = Some now)"
  using assms
proof (induction bs arbitrary: t)
  case Nil
  then show ?case by simp
next
  case (Cons b bs)
  then obtain t1 where t1: "upsert_split b t = Inr t1" "executemany bs t1 = Inr t'"
    by (auto split: sum.splits)
  from Cons.prems(2) have now: "b_seen b = now" by simp
  have ex: "\<exists>r \<in> set t1. participant_id r = p \<and> db_point_label r = l"
    using upsert_split_keeps_key [OF t1(1)] Cons.prems(3) by metis
  have all: "seen_at r = Some now"
    if r: "r \<in> set t1" "participant_id r = p" "db_point_label r = l" for r
  proof (cases "p = b_pid b \<and> Some l = b_label b")
    case True
    then have "b_label b = Some l" by simp
    from upsert_split_key [OF t1(1) this] r True now show ?thesis by simp
  next
    case False
    with r have "r \<in> set t"
      by (intro upsert_split_rows [OF t1(1)]) auto
    with Cons.prems(4) r show ?thesis by blast
  qed
  show ?case
    using t1(2) Cons.prems(2) ex all by (intro Cons.IH) auto
qed

lemma executemany_seen:
  assumes "executemany bs t = Inr t'" and "\<forall>b \<in> set bs. b_seen b = now"
    and "b \<in> set bs" and "b_label b = Some l"
  shows "(\<exists>r \<in> set t'. participant_id r = b_pid b \<and> db_point_label r = l) \<and>
         (\<forall>r \<in> set t'. participant_id r = b_pid b \<and> db_point_label r = l \<longrightarrow>
                       seen_at r = Some now)"
  using assms
proof (induction bs arbitrary: t)
  case Nil
  then show ?case by simp
next
  case (Cons c cs)
  then obtain t1 where t1: "upsert_split c t = Inr t1" "executemany cs t1 = Inr t'"
    by (auto split: sum.splits)
  from Cons.prems(2) have rest: "\<forall>b \<in> set cs. b_seen b = now" by simp
  show ?case
  proof (cases "b \<in> set cs")
    case True
    from t1(2) rest True Cons.prems(4) show ?thesis by (rule Cons.IH)
  next
    case False
    with Cons.prems(3) have "c = b" by simp
    with upsert_split_key [OF t1(1), of l] Cons.prems(2,4)
    have "\<exists>r \<in> set t1. participant_id r = b_pid b \<and> db_point_label r = l"
      and "\<forall>r \<in> set t1. participant_id r = b_pid b \<and> db_point_label r = l \<longrightarrow>
                           seen_at r = Some now"
      by simp_all
    with t1(2) rest show ?thesis by (intro executemany_keeps_seen)
  qed
qed

text \<open>The batch of a tick: what \<open>split_batch\<close> holds, and what the recomputation of
  finish times leaves as it is.\<close>

lemma split_batch_iff:
  "b \<in> set (split_batch results now) \<longleftrightarrow>
     (\<exists>r \<in> set results. \<exists>s \<in> set (splits r).
        b = \<lparr>b_pid = pid r, b_label = point_label s, b_km = point_km s, b_net = net_time s,
             b_clock = pass_clock s, b_pace = pace s, b_seen = now\<rparr>)"
  by (auto simp: split_batch_def)

lemma recalc_batch_map:
  "\<exists>g. recalc_batch pick t batch = map g batch \<and>
       (\<forall>b. b_pid (g b) = b_pid b \<and> b_label (g b) = b_label b \<and> b_seen (g b) = b_seen b)"
proof -
  define g where "g = (\<lambda>b. if b_pid b \<in> b_pid ` set (filter needs_recalc batch) \<and> finish_in_label b
              then (case calculate_net_time_from_clocks pick t (b_pid b) of
                      None \<Rightarrow> b
                    | Some u \<Rightarrow> if u \<noteq> [] then b\<lparr>b_net := Some u\<rparr> else b)
              else b)"
  have "recalc_batch pick t batch = map g batch"
    by (simp add: recalc_batch_def g_def)
  moreover have "b_pid (g b) = b_pid b \<and> b_label (g b) = b_label b \<and> b_seen (g b) = b_seen b"
    for b
    by (simp add: g_def split: option.splits)
  ultimately show ?thesis by blast
qed

lemma recalc_batch_mem:
  assumes "b' \<in> set (recalc_batch pick t batch)"
  shows "\<exists>b \<in> set batch. b_pid b' = b_pid b \<and> b_label b' = b_label b \<and> b_seen b' = b_seen b"
proof -
  obtain g where g: "recalc_batch pick t batch = map g batch"
    "\<And>b. b_pid (g b) = b_pid b \<and> b_label (g b) = b_label b \<and> b_seen (g b) = b_seen b"
    using recalc_batch_map [of pick t batch] by blast
  from assms obtain b where "b \<in> set batch" "b' = g b"
    unfolding g(1) by auto
  with g(2) show ?thesis by blast
qed

lemma recalc_batch_mem_conv:
  assumes "b \<in> set batch"
  shows "\<exists>b' \<in> set (recalc_batch pick t batch).
           b_pid b' = b_pid b \<and> b_label b' = b_label b \<and> b_seen b' = b_seen b"
proof -
  obtain g where g: "recalc_batch pick t batch = map g batch"
    "\<And>b. b_pid (g b) = b_pid b \<and> b_label (g b) = b_label b \<and> b_seen (g b) = b_seen b"
    using recalc_batch_map [of pick t batch] by blast
  from assms have "g b \<in> set (recalc_batch pick t batch)"
    unfolding g(1) by simp
  with g(2) show ?thesis by blast
qed

text \<open>The batch that is written, seen from the results of the tick.\<close>

lemma written_batch_mem:
  assumes "b \<in> set (recalc_batch pick t (split_batch results now))"
  shows "b_seen b = now \<and>
         (\<exists>r \<in> set results. pid r = b_pid b \<and> (\<exists>s \<in> set (splits r). point_label s = b_label b))"
proof -
  from recalc_batch_mem [OF assms] obtain c where c: "c \<in> set (split_batch results now)"
    "b_pid b = b_pid c" "b_label b = b_label c" "b_seen b = b_seen c"
    by blast
  from c(1) obtain r s where "r \<in> set results" "s \<in> set (splits r)"
    "b_pid c = pid r" "b_label c = point_label s" "b_seen c = now"
    by (auto simp: split_batch_iff)
  with c show ?thesis by auto
qed

lemma written_batch_has:
  assumes "writes_split results p l"
  shows "\<exists>b \<in> set (recalc_batch pick t (split_batch results now)).
           b_pid b = p \<and> b_label b = Some l"
proof -
  from assms obtain r s where rs: "r \<in> set results" "pid r = p" "s \<in> set (splits r)"
    "point_label s = Some l"
    by (auto simp: writes_split_def)
  define c where "c = \<lparr>b_pid = pid r, b_label = point_label s, b_km = point_km s,
    b_net = net_time s, b_clock = pass_clock s, b_pace = pace s, b_seen = now\<rparr>"
  from rs have "c \<in> set (split_batch results now)"
    unfolding split_batch_iff c_def by blast
  from recalc_batch_mem_conv [OF this, of pick t] rs show ?thesis
    by (auto simp: c_def)
qed

text \<open>After a tick that writes a split of \<open>(p, l)\<close> and whose splits all have labels,
  the row of \<open>(p, l)\<close> exists and carries the instant of the tick.\<close>

lemma save_results_seen:
  assumes "all_labelled results" and "writes_split results p l"
  shows "\<exists>r. find_row (save_results pick results now t) p l = Some r \<and> seen_at r = Some now"
proof -
  define batch where "batch = recalc_batch pick t (split_batch results now)"
  have labelled: "\<forall>b \<in> set batch. b_label b \<noteq> None"
    using written_batch_mem assms(1) unfolding batch_def all_labelled_def by metis
  have seen: "\<forall>b \<in> set batch. b_seen b = now"
    using written_batch_mem unfolding batch_def by blast
  from executemany_ok [OF labelled] obtain t' where t': "executemany batch t = Inr t'"
    by blast
  then have save: "save_results pick results now t = t'"
    by (simp add: save_results_def batch_def)
  from written_batch_has [OF assms(2)] obtain b where b: "b \<in> set batch" "b_pid b = p"
    "b_label b = Some l"
    unfolding batch_def by blast
  from executemany_seen [OF t' seen b(1,3)] b(2)
  have ex: "\<exists>r \<in> set t'. participant_id r = p \<and> db_point_label r = l"
    and all: "\<forall>r \<in> set t'. participant_id r = p \<and> db_point_label r = l \<longrightarrow> seen_at r = Some now"
    by simp_all
  from ex obtain r where r: "find_row t' p l = Some r"
    by (cases "find_row t' p l") (auto simp: find_row_def find_None_iff)
  then have "r \<in> set t'" "participant_id r = p \<and> db_point_label r = l"
    by (auto simp: find_row_def find_Some_iff)
  with all have "seen_at r = Some now" by blast
  with r save show ?thesis by simp
qed

lemma save_results_frame: "frame_kept t (save_results pick results now t)"
  by (auto simp: save_results_def frame_kept_refl executemany_frame split: sum.splits)

lemma save_results_other:
  assumes "i < length t"
    and "\<not> writes_split results (participant_id (t ! i)) (db_point_label (t ! i))"
  shows "save_results pick results now t ! i = t ! i"
proof (cases "executemany (recalc_batch pick t (split_batch results now)) t")
  case (Inl e)
  then show ?thesis by (simp add: save_results_def)
next
  case (Inr t')
  have "\<forall>b \<in> set (recalc_batch pick t (split_batch results now)).
          \<not> (participant_id (t ! i) = b_pid b \<and> Some (db_point_label (t ! i)) = b_label b)"
  proof
    fix b
    assume "b \<in> set (recalc_batch pick t (split_batch results now))"
    from written_batch_mem [OF this] assms(2)
    show "\<not> (participant_id (t ! i) = b_pid b \<and> Some (db_point_label (t ! i)) = b_label b)"
      unfolding writes_split_def by metis
  qed
  from executemany_other [OF Inr assms(1) this] Inr show ?thesis
    by (simp add: save_results_def)
qed

text \<open>
  Claim C4. Saving the splits of a tick keeps every row of the table with its
  participant, its \<open>point_label\<close> and its \<open>point_km\<close> (so no row is deleted, and a
  conflicting upsert changes \<open>net_time\<close>, \<open>pass_clock\<close>, \<open>pace\<close> and \<open>seen_at\<close>
  only); a row for which the tick has no split is not changed at all; and for two
  ticks at instants \<open>t1 < t2\<close> that each write a split of the same participant
  and label, the \<open>seen_at\<close> of the row after the second is strictly greater than after
  the first, whatever was written in between. A tick writes when each of its splits
  has a label; the instant of a tick is its reading of the clock.
\<close>

theorem upsert_keeps_rows_and_moves_seen_at:
  "frame_kept t (save_results pick results now t) \<and>
   (\<forall>i < length t.
      \<not> writes_split results (participant_id (t ! i)) (db_point_label (t ! i)) \<longrightarrow>
      save_results pick results now t ! i = t ! i) \<and>
   (all_labelled results1 \<and> all_labelled results2 \<and>
    writes_split results1 p l \<and> writes_split results2 p l \<and> t1 < t2 \<longrightarrow>
      (\<exists>r1 r2. find_row (save_results pick1 results1 t1 ta) p l = Some r1 \<and>
               find_row (save_results pick2 results2 t2 tb) p l = Some r2 \<and>
               seen_at r1 = Some t1 \<and> seen_at r2 = Some t2 \<and> seen_at r1 < seen_at r2))"
proof -
  have "\<exists>r1 r2. find_row (save_results pick1 results1 t1 ta) p l = Some r1 \<and>
               find_row (save_results pick2 results2 t2 tb) p l = Some r2 \<and>
               seen_at r1 = Some t1 \<and> seen_at r2 = Some t2 \<and> seen_at r1 < seen_at r2"
    if "all_labelled results1" "all_labelled results2"
      "writes_split results1 p l" "writes_split results2 p l" "t1 < t2"
  proof -
    from save_results_seen [OF that(1,3)] obtain r1
      where r1: "find_row (save_results pick1 results1 t1 ta) p l = Some r1" "seen_at r1 = Some t1"
      by blast
    from save_results_seen [OF that(2,4)] obtain r2
      where r2: "find_row (save_results pick2 results2 t2 tb) p l = Some r2" "seen_at r2 = Some t2"
      by blast
    from r1 r2 that(5) show ?thesis by simp
  qed
  with save_results_frame save_results_other show ?thesis
    by blast
qed


text \<open>Two ticks at 100 and at 200 on an empty table: one row, with the \<open>point_km\<close> of
  the first tick and the times and the instant of the second.\<close>

theorem upsert_keeps_rows_and_moves_seen_at_witness:
  "all_labelled first_tick \<and> all_labelled second_tick \<and>
   writes_split first_tick 7 (str ''5km'') \<and> writes_split second_tick 7 (str ''5km'') \<and>
   (100 :: rat) < 200 \<and>
   (\<exists>r1 r2. find_row (save_results (\<lambda>c. 0) first_tick 100 []) 7 (str ''5km'') = Some r1 \<and>
            find_row (save_results (\<lambda>c. 0) second_tick 200
                        (save_results (\<lambda>c. 0) first_tick 100 [])) 7 (str ''5km'') = Some r2 \<and>
            seen_at r1 = Some 100 \<and> seen_at r2 = Some 200 \<and> seen_at r1 < seen_at r2) \<and>
   save_results (\<lambda>c. 0) second_tick 200 (save_results (\<lambda>c. 0) first_tick 100 []) =
     [\<lparr>participant_id = 7, db_point_label = str ''5km'', db_point_km = Some 5,
       db_net_time = Some (str ''00:25:31''), db_pass_clock = Some (str ''09:25:31''),
       db_pace = Some (str ''05:06''), seen_at = Some 200\<rparr>]"
proof -
  have l: "all_labelled first_tick" "all_labelled second_tick"
    by (simp_all add: all_labelled_def first_tick_def second_tick_def mk_split_def)
  have w: "writes_split first_tick 7 (str ''5km'')" "writes_split second_tick 7 (str ''5km'')"
    by (simp_all add: writes_split_def first_tick_def second_tick_def mk_split_def)
  have lt: "(100 :: rat) < 200"
    by simp
  have one: "save_results (\<lambda>c. 0) first_tick 100 [] =
     [\<lparr>participant_id = 7, db_point_label = str ''5km'', db_point_km = Some 5,
       db_net_time = Some (str ''00:25:30''), db_pass_clock = Some (str ''09:25:30''),
       db_pace = Some (str ''05:06''), seen_at = Some 100\<rparr>]"
    by (simp add: save_results_def split_batch_def recalc_batch_def needs_recalc_def
        finish_in_label_def first_tick_def mk_split_def upsert_split_def same_key_def
        or_empty_def string_defs)
  have two: "save_results (\<lambda>c. 0) second_tick 200 (save_results (\<lambda>c. 0) first_tick 100 []) =
     [\<lparr>participant_id = 7, db_point_label = str ''5km'', db_point_km = Some 5,
       db_net_time = Some (str ''00:25:31''), db_pass_clock = Some (str ''09:25:31''),
       db_pace = Some (str ''05:06''), seen_at = Some 200\<rparr>]"
    unfolding one
    by (simp add: save_results_def split_batch_def recalc_batch_def needs_recalc_def
        finish_in_label_def second_tick_def mk_split_def upsert_split_def same_key_def
        or_empty_def string_defs)
  from upsert_keeps_rows_and_moves_seen_at
    [of "[]" "\<lambda>c. 0" first_tick 100 first_tick second_tick 7 "str ''5km''" 100 200
      "\<lambda>c. 0" "[]" "\<lambda>c. 0" "save_results (\<lambda>c. 0) first_tick 100 []"] l w lt
  have "\<exists>r1 r2. find_row (save_results (\<lambda>c. 0) first_tick 100 []) 7 (str ''5km'') = Some r1 \<and>
            find_row (save_results (\<lambda>c. 0) second_tick 200
                        (save_results (\<lambda>c. 0) first_tick 100 [])) 7 (str ''5km'') = Some r2 \<and>
            seen_at r1 = Some 100 \<and> seen_at r2 = Some 200 \<and> seen_at r1 < seen_at r2"
    by blast
  with l w lt two show ?thesis
    by blast
qed


section \<open>The net time from clocks\<close>

lemma gaps_zip: "gaps cs = map clock_gap (zip cs (tl cs))"
  by (induction cs rule: gaps.induct) (simp_all add: clock_gap_def)

lemma gaps_empty_iff: "gaps cs = [] \<longleftrightarrow> length cs < 2"
  by (induction cs rule: gaps.induct) simp_all

lemma gaps_sorted: "sorted cs \<Longrightarrow> cs \<noteq> [] \<Longrightarrow> sum_list (gaps cs) = last cs - hd cs"
proof (induction cs rule: gaps.induct)
  case (1 prev sec rest)
  then have "sum_list (gaps (sec # rest)) = last (sec # rest) - sec"
    by simp
  moreover from "1.prems" have "\<not> sec < prev"
    by auto
  ultimately show ?case by simp
qed simp_all

lemma gaps_append:
  "xs \<noteq> [] \<Longrightarrow> ys \<noteq> [] \<Longrightarrow>
     gaps (xs @ ys) = gaps xs @ [clock_gap (last xs, hd ys)] @ gaps ys"
proof (induction xs rule: gaps.induct)
  case (1 prev sec rest)
  then show ?case by simp
qed (cases ys, simp_all add: clock_gap_def)+

lemma gaps_one_jump:
  assumes "sorted xs" "sorted ys" "xs \<noteq> []" "ys \<noteq> []" "hd ys < last xs"
  shows "sum_list (gaps (xs @ ys)) = (last ys - hd xs) + 86400"
  using assms by (simp add: gaps_append gaps_sorted clock_gap_def)

text \<open>The deduplicated, ordered rows.\<close>

lemma fold_max_None:
  fixes xs :: "'a::linorder option list"
  assumes "xs \<noteq> []"
  shows "fold max xs None \<in> set xs" and "\<forall>x \<in> set xs. x \<le> fold max xs None"
proof -
  have eq: "fold max xs None = Max (set (None # xs))"
    by (simp only: Max.set_eq_fold)
  have ge: "x \<le> fold max xs None" if "x \<in> set xs" for x
    unfolding eq using that by (intro Max_ge) simp_all
  then show "\<forall>x \<in> set xs. x \<le> fold max xs None" by blast
  have "fold max xs None \<in> set (None # xs)"
    unfolding eq by (intro Max_in) simp_all
  moreover have "None \<in> set xs" if "fold max xs None = None"
  proof -
    from assms obtain x where x: "x \<in> set xs" by (cases xs) auto
    with ge that have "x \<le> None" by metis
    then have "x = None" by (cases x) simp_all
    with x show ?thesis by simp
  qed
  ultimately show "fold max xs None \<in> set xs" by auto
qed

lemma partition_best_props:
  assumes "km \<in> fst ` set base"
  shows "partition_best base km \<noteq> []"
    and "\<forall>r \<in> set (partition_best base km).
           r \<in> set base \<and> fst r = km \<and>
           (\<forall>r' \<in> set base. fst r' = km \<longrightarrow>
              sql_datetime (snd (snd r')) \<le> sql_datetime (snd (snd r)))"
proof -
  define part where "part = filter (\<lambda>r. fst r = km) base"
  define top where "top = fold max (map (\<lambda>r. sql_datetime (snd (snd r))) part) None"
  have best: "partition_best base km = filter (\<lambda>r. sql_datetime (snd (snd r)) = top) part"
    by (simp add: partition_best_def part_def top_def Let_def)
  from assms have "part \<noteq> []"
    by (auto simp: part_def filter_empty_conv)
  then have ne: "map (\<lambda>r. sql_datetime (snd (snd r))) part \<noteq> []"
    by simp
  from fold_max_None(1) [OF ne] have "top \<in> set (map (\<lambda>r. sql_datetime (snd (snd r))) part)"
    by (simp only: top_def)
  then show "partition_best base km \<noteq> []"
    unfolding best by (auto simp: filter_empty_conv)
  from fold_max_None(2) [OF ne]
  have "\<forall>r' \<in> set part. sql_datetime (snd (snd r')) \<le> top"
    by (simp add: top_def)
  then show "\<forall>r \<in> set (partition_best base km).
           r \<in> set base \<and> fst r = km \<and>
           (\<forall>r' \<in> set base. fst r' = km \<longrightarrow>
              sql_datetime (snd (snd r')) \<le> sql_datetime (snd (snd r)))"
    unfolding best by (auto simp: part_def)
qed

lemma sql_ordered_keys: "map fst (sql_ordered pick base) = sort (remdups (map fst base))"
proof -
  have "fst (partition_best base km ! (pick (partition_best base km) mod
             length (partition_best base km))) = km"
    if "km \<in> set (sort (remdups (map fst base)))" for km
  proof -
    from that have km: "km \<in> fst ` set base" by simp
    with partition_best_props(1) have "partition_best base km \<noteq> []" by blast
    then have "partition_best base km ! (pick (partition_best base km) mod
                 length (partition_best base km)) \<in> set (partition_best base km)"
      by (intro nth_mem) simp
    with partition_best_props(2) [OF km] show ?thesis by blast
  qed
  then have "map (\<lambda>km. fst (partition_best base km ! (pick (partition_best base km) mod
             length (partition_best base km)))) (sort (remdups (map fst base))) =
        sort (remdups (map fst base))"
    by (intro map_idI)
  then show ?thesis
    by (simp add: sql_ordered_def Let_def comp_def)
qed

lemma sql_ordered_rows:
  assumes "r \<in> set (sql_ordered pick base)"
  shows "r \<in> set base \<and>
         (\<forall>r' \<in> set base. fst r' = fst r \<longrightarrow>
            sql_datetime (snd (snd r')) \<le> sql_datetime (snd (snd r)))"
proof -
  define g where "g = (\<lambda>km. partition_best base km ! (pick (partition_best base km) mod
                 length (partition_best base km)))"
  have "sql_ordered pick base = map g (sort (remdups (map fst base)))"
    by (simp add: sql_ordered_def g_def Let_def)
  with assms have "r \<in> g ` set (sort (remdups (map fst base)))"
    by simp
  then obtain km where "km \<in> set (sort (remdups (map fst base)))" and r: "r = g km"
    by (rule imageE)
  then have km: "km \<in> fst ` set base"
    by simp
  from partition_best_props(1) [OF km]
  have "pick (partition_best base km) mod length (partition_best base km) <
        length (partition_best base km)"
    by simp
  then have "r \<in> set (partition_best base km)"
    unfolding r g_def by (rule nth_mem)
  with partition_best_props(2) [OF km]
  have "r \<in> set base \<and> fst r = km \<and>
        (\<forall>r' \<in> set base. fst r' = km \<longrightarrow>
           sql_datetime (snd (snd r')) \<le> sql_datetime (snd (snd r)))"
    by (rule bspec)
  then show ?thesis
    by simp
qed

lemma sql_ordered_sorted: "sorted_wrt (<) (map fst (sql_ordered pick base))"
proof -
  have "sorted (sort (remdups (map fst base)))" "distinct (sort (remdups (map fst base)))"
    by simp_all
  then have "sorted_wrt (<) (sort (remdups (map fst base)))"
    using strict_sorted_iff by blast
  also have "sort (remdups (map fst base)) = map fst (sql_ordered pick base)"
    by (rule sql_ordered_keys [symmetric])
  finally show ?thesis .
qed

text \<open>The seconds of a clock text.\<close>

lemma clock_text_shape:
  assumes "is_clock_text c"
  obtains h1 h2 m1 m2 s1 s2 rest where "c = h1 # h2 # 58 # m1 # m2 # 58 # s1 # s2 # rest"
    and "is_digit h1" "is_digit h2" "is_digit m1" "is_digit m2" "is_digit s1" "is_digit s2"
    and "(h1 - 48) * 10 + (h2 - 48) < 24" "m1 \<le> 53" "s1 \<le> 53"
  using assms unfolding is_clock_text_def
  by (simp split: list.splits)

lemma sql_num_two_digits:
  assumes "is_digit a" "is_digit b"
  shows "sql_num [a, b] = of_nat ((a - 48) * 10 + (b - 48))"
proof -
  from assms have ns: "\<not> sql_space a" "a \<noteq> 45" "a \<noteq> 43"
    by (auto simp: is_digit_def sql_space_def)
  then have "split_sign (dropWhile sql_space [a, b]) = (False, [a, b])"
    by (simp add: split_sign_def)
  then show ?thesis
    using assms by (simp add: sql_num_def decimal_val_def digits_val_def)
qed

lemma clock_sec_text:
  assumes "is_clock_text c"
  shows "\<exists>n < 86400. clock_sec c = of_nat n"
  using assms
proof (rule clock_text_shape)
  fix h1 h2 m1 m2 s1 s2 rest
  assume c: "c = h1 # h2 # 58 # m1 # m2 # 58 # s1 # s2 # rest"
    and d: "is_digit h1" "is_digit h2" "is_digit m1" "is_digit m2" "is_digit s1" "is_digit s2"
    and b: "(h1 - 48) * 10 + (h2 - 48) < 24" "m1 \<le> 53" "s1 \<le> 53"
  define hh where "hh = (h1 - 48) * 10 + (h2 - 48)"
  define mm where "mm = (m1 - 48) * 10 + (m2 - 48)"
  define ss where "ss = (s1 - 48) * 10 + (s2 - 48)"
  have "clock_sec c = of_nat (hh * 3600 + mm * 60 + ss)"
    by (simp add: clock_sec_def c sql_num_two_digits d hh_def mm_def ss_def)
  moreover have "hh \<le> 23"
    using b(1) by (simp add: hh_def)
  moreover have "mm \<le> 59"
    using b(2) d(3,4) unfolding mm_def is_digit_def by arith
  moreover have "ss \<le> 59"
    using b(3) d(5,6) unfolding ss_def is_digit_def by arith
  ultimately have "clock_sec c = of_nat (hh * 3600 + mm * 60 + ss) \<and>
                   hh * 3600 + mm * 60 + ss < 86400"
    by simp
  then show ?thesis by blast
qed

lemma fmt_02d_two_digits: "n < 100 \<Longrightarrow> length (fmt_02d (int n)) = 2"
proof -
  assume n: "n < 100"
  show ?thesis
  proof (cases "n < 10")
    case True
    then show ?thesis by (simp add: fmt_02d_def str_int_def)
  next
    case False
    with n have "n div 10 < 10" by simp
    with False show ?thesis
      by (simp add: fmt_02d_def str_int_def)
  qed
qed

lemma in_set_map_filter:
  "y \<in> set (List.map_filter f xs) \<longleftrightarrow> (\<exists>x \<in> set xs. f x = Some y)"
  by (induction xs) (auto split: option.splits)

text \<open>The seconds of the ordered rows are whole seconds of a day when the clocks of the
  participant are clock texts.\<close>

lemma parsed_seconds_of_day:
  assumes "\<forall>r \<in> set table. participant_id r = p \<longrightarrow>
             (\<forall>c. db_pass_clock r = Some c \<and> 8 \<le> length c \<longrightarrow> is_clock_text c)"
    and "x \<in> set (parsed_seconds pick table p)"
  shows "\<exists>n < 86400. x = of_nat n"
proof -
  from assms(2) obtain r where r: "r \<in> set (sql_ordered pick (sql_base table p))"
    and x: "x = clock_sec (fst (snd r))"
    by (auto simp: parsed_seconds_def)
  from sql_ordered_rows [OF r] have "r \<in> set (sql_base table p)"
    by simp
  then obtain row where "row \<in> set table" "participant_id row = p"
    "db_pass_clock row = Some (fst (snd r))" "8 \<le> length (fst (snd r))"
    by (auto simp: sql_base_def in_set_map_filter split: option.splits if_splits)
  with assms(1) have "is_clock_text (fst (snd r))"
    by blast
  from clock_sec_text [OF this] x show ?thesis
    by simp
qed

lemma gaps_whole:
  assumes "\<forall>x \<in> set cs. \<exists>n < 86400. x = of_nat n"
  shows "\<exists>N. sum_list (gaps cs) = of_nat N"
  using assms
proof (induction cs rule: gaps.induct)
  case (1 prev sec rest)
  then obtain N where N: "sum_list (gaps (sec # rest)) = of_nat N"
    by auto
  from "1.prems" obtain a b :: nat where ab: "prev = of_nat a" "sec = of_nat b" "a < 86400"
    by auto
  have "\<exists>g :: nat. (if sec < prev then (sec + 86400) - prev else sec - prev) = of_nat g"
  proof (cases "b < a")
    case True
    with ab have "(if sec < prev then (sec + 86400) - prev else sec - prev) =
                  of_nat (b + 86400 - a)"
      by (simp add: of_nat_diff)
    then show ?thesis by blast
  next
    case False
    with ab have "(if sec < prev then (sec + 86400) - prev else sec - prev) = of_nat (b - a)"
      by (simp add: of_nat_diff)
    then show ?thesis by blast
  qed
  then obtain g :: nat
    where "(if sec < prev then (sec + 86400) - prev else sec - prev) = of_nat g"
    by blast
  with N have "sum_list (gaps (prev # sec # rest)) = of_nat (g + N)"
    by simp
  then show ?case by blast
qed (simp_all add: exI [of _ 0])

text \<open>The differences of adjacent elements add up to the last minus the first.\<close>

lemma diffs_telescope:
  fixes cs :: "rat list"
  shows "cs \<noteq> [] \<Longrightarrow> sum_list (map (\<lambda>(a, b). b - a) (zip cs (tl cs))) = last cs - hd cs"
proof (induction cs rule: gaps.induct)
  case (1 prev sec rest)
  then show ?case by simp
qed simp_all

lemma calculate_net_time_whole:
  assumes "CALC_NET_TIME_SQL pick table p = Some (of_nat N)"
  shows "calculate_net_time_from_clocks pick table p =
           Some (fmt_02d (int (N div 3600)) @ [58] @ fmt_02d (int (N mod 3600 div 60)) @ [58] @
                 fmt_02d (int (N mod 60)))"
proof -
  have "py_trunc (of_nat N) = int N"
    by (simp add: py_trunc_def)
  moreover have "int N div 3600 = int (N div 3600)" "int N mod 3600 div 60 = int (N mod 3600 div 60)"
    "int N mod 3600 mod 60 = int (N mod 60)"
    by (simp_all add: zdiv_int zmod_int mod_mod_cancel)
  ultimately show ?thesis
    using assms by (simp add: calculate_net_time_from_clocks_def Let_def)
qed

text \<open>
  Claim C3, amended. The clock-gap accumulator works on the rows of the participant
  that have a \<open>pass_clock\<close> of at least 8 characters, one row per \<open>point_km\<close>, the one
  with the most recent \<open>seen_at\<close>, in the order of \<open>point_km\<close>; it reads each clock as
  seconds of the day and sums the deltas of adjacent rows, a negative delta with 86400
  added. With fewer than two rows the result is \<open>None\<close>. For at least two rows: when
  the clocks never decrease, the result is the sum of the adjacent differences; when
  they decrease exactly once, it is that sum plus 86400; and when the clocks are clock
  texts, the result is a whole number of seconds, formatted with two digits for the
  hours (more from 100 hours on) and two each for the minutes and the seconds.
\<close>

theorem net_time_from_clocks:
  "(let rows = sql_ordered pick (sql_base table p);
        cs = parsed_seconds pick table p;
        diffs = map (\<lambda>(a, b). b - a) (zip cs (tl cs))
    in sorted_wrt (<) (map fst rows) \<and>
       (\<forall>r \<in> set rows. r \<in> set (sql_base table p) \<and>
          (\<forall>r' \<in> set (sql_base table p). fst r' = fst r \<longrightarrow>
             sql_datetime (snd (snd r')) \<le> sql_datetime (snd (snd r)))) \<and>
       cs = map (\<lambda>r. clock_sec (fst (snd r))) rows \<and>
       CALC_NET_TIME_SQL pick table p =
         (if length cs < 2 then None else Some (sum_list (map clock_gap (zip cs (tl cs))))) \<and>
       (2 \<le> length cs \<and> sorted cs \<longrightarrow>
          CALC_NET_TIME_SQL pick table p = Some (sum_list diffs)) \<and>
       (\<forall>xs ys. cs = xs @ ys \<and> xs \<noteq> [] \<and> ys \<noteq> [] \<and> sorted xs \<and> sorted ys \<and>
                hd ys < last xs \<longrightarrow>
          CALC_NET_TIME_SQL pick table p = Some (sum_list diffs + 86400)) \<and>
       (2 \<le> length cs \<and>
        (\<forall>r \<in> set table. participant_id r = p \<longrightarrow>
           (\<forall>c. db_pass_clock r = Some c \<and> 8 \<le> length c \<longrightarrow> is_clock_text c)) \<longrightarrow>
          (\<exists>N. CALC_NET_TIME_SQL pick table p = Some (of_nat N) \<and>
               calculate_net_time_from_clocks pick table p =
                 Some (fmt_02d (int (N div 3600)) @ [58] @ fmt_02d (int (N mod 3600 div 60)) @
                       [58] @ fmt_02d (int (N mod 60))) \<and>
               length (fmt_02d (int (N mod 3600 div 60))) = 2 \<and>
               length (fmt_02d (int (N mod 60))) = 2 \<and>
               (N < 360000 \<longrightarrow> length (fmt_02d (int (N div 3600))) = 2))))"
proof -
  define rows where "rows = sql_ordered pick (sql_base table p)"
  define cs where "cs = parsed_seconds pick table p"
  define diffs where "diffs = map (\<lambda>(a, b). b - a) (zip cs (tl cs))"
  have order: "sorted_wrt (<) (map fst rows)"
    unfolding rows_def by (rule sql_ordered_sorted)
  have dedup: "\<forall>r \<in> set rows. r \<in> set (sql_base table p) \<and>
          (\<forall>r' \<in> set (sql_base table p). fst r' = fst r \<longrightarrow>
             sql_datetime (snd (snd r')) \<le> sql_datetime (snd (snd r)))"
    unfolding rows_def using sql_ordered_rows by blast
  have parse: "cs = map (\<lambda>r. clock_sec (fst (snd r))) rows"
    by (simp add: cs_def rows_def parsed_seconds_def)
  have calc: "CALC_NET_TIME_SQL pick table p =
         (if length cs < 2 then None else Some (sum_list (map clock_gap (zip cs (tl cs)))))"
  proof -
    have "CALC_NET_TIME_SQL pick table p =
            (if gaps cs = [] then None else Some (sum_list (gaps cs)))"
      by (simp add: CALC_NET_TIME_SQL_def Let_def cs_def)
    then have "CALC_NET_TIME_SQL pick table p =
            (if length cs < 2 then None else Some (sum_list (gaps cs)))"
      by (simp only: gaps_empty_iff)
    then show ?thesis
      by (simp only: gaps_zip)
  qed
  have calc2: "CALC_NET_TIME_SQL pick table p = Some (sum_list (gaps cs))" if "2 \<le> length cs"
    using that calc by (simp add: gaps_zip)
  have mono: "CALC_NET_TIME_SQL pick table p = Some (sum_list diffs)"
    if "2 \<le> length cs" "sorted cs"
  proof -
    from that(1) have ne: "cs \<noteq> []" by auto
    with that(2) have "sum_list (gaps cs) = last cs - hd cs"
      by (intro gaps_sorted)
    also have "\<dots> = sum_list diffs"
      unfolding diffs_def using diffs_telescope [OF ne] by simp
    finally show ?thesis
      using calc2 [OF that(1)] by simp
  qed
  have jump: "CALC_NET_TIME_SQL pick table p = Some (sum_list diffs + 86400)"
    if "cs = xs @ ys" "xs \<noteq> []" "ys \<noteq> []" "sorted xs" "sorted ys" "hd ys < last xs"
    for xs ys
  proof -
    from that have len: "2 \<le> length cs"
      by (cases xs; cases ys) simp_all
    from that have ne: "cs \<noteq> []" by simp
    have "sum_list (gaps cs) = (last ys - hd xs) + 86400"
      unfolding that(1) using that(2-6) by (intro gaps_one_jump)
    also have "last ys - hd xs = last cs - hd cs"
      using that(1-3) by simp
    also have "last cs - hd cs = sum_list diffs"
      unfolding diffs_def using diffs_telescope [OF ne] by simp
    finally show ?thesis
      using calc2 [OF len] by simp
  qed
  have whole: "\<exists>N. CALC_NET_TIME_SQL pick table p = Some (of_nat N) \<and>
               calculate_net_time_from_clocks pick table p =
                 Some (fmt_02d (int (N div 3600)) @ [58] @ fmt_02d (int (N mod 3600 div 60)) @
                       [58] @ fmt_02d (int (N mod 60))) \<and>
               length (fmt_02d (int (N mod 3600 div 60))) = 2 \<and>
               length (fmt_02d (int (N mod 60))) = 2 \<and>
               (N < 360000 \<longrightarrow> length (fmt_02d (int (N div 3600))) = 2)"
    if len: "2 \<le> length cs"
      and texts: "\<forall>r \<in> set table. participant_id r = p \<longrightarrow>
           (\<forall>c. db_pass_clock r = Some c \<and> 8 \<le> length c \<longrightarrow> is_clock_text c)"
  proof -
    have "\<forall>x \<in> set cs. \<exists>n < 86400. x = of_nat n"
      unfolding cs_def using parsed_seconds_of_day [OF texts] by blast
    from gaps_whole [OF this] obtain N where "sum_list (gaps cs) = of_nat N"
      by blast
    with calc2 [OF len] have N: "CALC_NET_TIME_SQL pick table p = Some (of_nat N)"
      by simp
    have "N mod 3600 div 60 < 100" "N mod 60 < 100"
      by (simp_all add: less_mult_imp_div_less)
    then have "length (fmt_02d (int (N mod 3600 div 60))) = 2" "length (fmt_02d (int (N mod 60))) = 2"
      by (simp_all only: fmt_02d_two_digits)
    moreover have "length (fmt_02d (int (N div 3600))) = 2" if "N < 360000"
    proof -
      from that have "N div 3600 < 100" by simp
      then show ?thesis by (rule fmt_02d_two_digits)
    qed
    ultimately show ?thesis
      using N calculate_net_time_whole [OF N] by blast
  qed
  from order dedup parse calc mono jump whole show ?thesis
    unfolding Let_def rows_def [symmetric] cs_def [symmetric] diffs_def [symmetric]
    by blast
qed


lemmas sql_eval = parsed_seconds_def sql_ordered_def sql_base_def partition_best_def
  sql_datetime_def clock_sec_def sql_num_def split_sign_def sql_space_def decimal_val_def
  digits_val_def mk_row_def str_def is_digit_def Let_def

lemma day_cs: "parsed_seconds (\<lambda>c. 0) daytime_table 8 = [32400, 33930, 35460]"
  by (simp add: sql_eval daytime_table_def)

lemma night_cs: "parsed_seconds (\<lambda>c. 0) midnight_table 7 = [86280, 120, 600]"
  by (simp add: sql_eval midnight_table_def)

lemma day_texts: "\<forall>r \<in> set daytime_table. participant_id r = 8 \<longrightarrow>
           (\<forall>c. db_pass_clock r = Some c \<and> 8 \<le> length c \<longrightarrow> is_clock_text c)"
  by (simp add: daytime_table_def mk_row_def is_clock_text_def str_def is_digit_def)

lemma night_texts: "\<forall>r \<in> set midnight_table. participant_id r = 7 \<longrightarrow>
           (\<forall>c. db_pass_clock r = Some c \<and> 8 \<le> length c \<longrightarrow> is_clock_text c)"
  by (simp add: midnight_table_def mk_row_def is_clock_text_def str_def is_digit_def)

text \<open>Participant 8 in daytime (the older row of the 5 km point is dropped) and
  participant 7 across midnight.\<close>

theorem net_time_from_clocks_witness:
  "parsed_seconds (\<lambda>c. 0) daytime_table 8 = [32400, 33930, 35460] \<and>
   calculate_net_time_from_clocks (\<lambda>c. 0) daytime_table 8 = Some (str ''00:51:00'') \<and>
   parsed_seconds (\<lambda>c. 0) midnight_table 7 = [86280, 120, 600] \<and>
   calculate_net_time_from_clocks (\<lambda>c. 0) midnight_table 7 = Some (str ''00:12:00'')"
proof -
  note day = net_time_from_clocks [of "\<lambda>c. 0" daytime_table 8, unfolded Let_def]
  from day have "2 \<le> length (parsed_seconds (\<lambda>c. 0) daytime_table 8) \<and>
      sorted (parsed_seconds (\<lambda>c. 0) daytime_table 8) \<longrightarrow>
      CALC_NET_TIME_SQL (\<lambda>c. 0) daytime_table 8 =
        Some (sum_list (map (\<lambda>(a, b). b - a)
                (zip (parsed_seconds (\<lambda>c. 0) daytime_table 8)
                     (tl (parsed_seconds (\<lambda>c. 0) daytime_table 8)))))"
    by blast
  then have d1: "CALC_NET_TIME_SQL (\<lambda>c. 0) daytime_table 8 = Some 3060"
    by (simp add: day_cs)
  from day have "2 \<le> length (parsed_seconds (\<lambda>c. 0) daytime_table 8) \<and>
      (\<forall>r \<in> set daytime_table. participant_id r = 8 \<longrightarrow>
           (\<forall>c. db_pass_clock r = Some c \<and> 8 \<le> length c \<longrightarrow> is_clock_text c)) \<longrightarrow>
      (\<exists>N. CALC_NET_TIME_SQL (\<lambda>c. 0) daytime_table 8 = Some (of_nat N) \<and>
           calculate_net_time_from_clocks (\<lambda>c. 0) daytime_table 8 =
             Some (fmt_02d (int (N div 3600)) @ [58] @ fmt_02d (int (N mod 3600 div 60)) @
                   [58] @ fmt_02d (int (N mod 60))) \<and>
           length (fmt_02d (int (N mod 3600 div 60))) = 2 \<and>
           length (fmt_02d (int (N mod 60))) = 2 \<and>
           (N < 360000 \<longrightarrow> length (fmt_02d (int (N div 3600))) = 2))"
    by blast
  with day_texts obtain N where N: "CALC_NET_TIME_SQL (\<lambda>c. 0) daytime_table 8 = Some (of_nat N)"
    "calculate_net_time_from_clocks (\<lambda>c. 0) daytime_table 8 =
       Some (fmt_02d (int (N div 3600)) @ [58] @ fmt_02d (int (N mod 3600 div 60)) @ [58] @
             fmt_02d (int (N mod 60)))"
    by (auto simp: day_cs)
  from N(1) d1 have "N = 3060" by simp
  with N(2) have a: "calculate_net_time_from_clocks (\<lambda>c. 0) daytime_table 8 = Some (str ''00:51:00'')"
    by (simp add: fmt_02d_def str_int_def str_def)
  note night = net_time_from_clocks [of "\<lambda>c. 0" midnight_table 7, unfolded Let_def]
  from night have "\<forall>xs ys. parsed_seconds (\<lambda>c. 0) midnight_table 7 = xs @ ys \<and> xs \<noteq> [] \<and>
      ys \<noteq> [] \<and> sorted xs \<and> sorted ys \<and> hd ys < last xs \<longrightarrow>
      CALC_NET_TIME_SQL (\<lambda>c. 0) midnight_table 7 =
        Some (sum_list (map (\<lambda>(a, b). b - a)
                (zip (parsed_seconds (\<lambda>c. 0) midnight_table 7)
                     (tl (parsed_seconds (\<lambda>c. 0) midnight_table 7)))) + 86400)"
    by blast
  from this [rule_format, of "[86280]" "[120, 600]"]
  have n1: "CALC_NET_TIME_SQL (\<lambda>c. 0) midnight_table 7 = Some 720"
    by (simp add: night_cs)
  from night have "2 \<le> length (parsed_seconds (\<lambda>c. 0) midnight_table 7) \<and>
      (\<forall>r \<in> set midnight_table. participant_id r = 7 \<longrightarrow>
           (\<forall>c. db_pass_clock r = Some c \<and> 8 \<le> length c \<longrightarrow> is_clock_text c)) \<longrightarrow>
      (\<exists>N. CALC_NET_TIME_SQL (\<lambda>c. 0) midnight_table 7 = Some (of_nat N) \<and>
           calculate_net_time_from_clocks (\<lambda>c. 0) midnight_table 7 =
             Some (fmt_02d (int (N div 3600)) @ [58] @ fmt_02d (int (N mod 3600 div 60)) @
                   [58] @ fmt_02d (int (N mod 60))) \<and>
           length (fmt_02d (int (N mod 3600 div 60))) = 2 \<and>
           length (fmt_02d (int (N mod 60))) = 2 \<and>
           (N < 360000 \<longrightarrow> length (fmt_02d (int (N div 3600))) = 2))"
    by blast
  with night_texts obtain M where M: "CALC_NET_TIME_SQL (\<lambda>c. 0) midnight_table 7 = Some (of_nat M)"
    "calculate_net_time_from_clocks (\<lambda>c. 0) midnight_table 7 =
       Some (fmt_02d (int (M div 3600)) @ [58] @ fmt_02d (int (M mod 3600 div 60)) @ [58] @
             fmt_02d (int (M mod 60)))"
    by (auto simp: night_cs)
  from M(1) n1 have "M = 720" by simp
  with M(2) have b: "calculate_net_time_from_clocks (\<lambda>c. 0) midnight_table 7 = Some (str ''00:12:00'')"
    by (simp add: fmt_02d_def str_int_def str_def)
  from a b day_cs night_cs show ?thesis
    by simp
qed


text \<open>
  Claim C3 as stated fails for a sequence of one clock: it never decreases and the sum
  of its adjacent differences is 0, yet the result is no duration but \<open>None\<close>,
  since no row has a predecessor.
\<close>

theorem net_time_single_clock_counterexample:
  "parsed_seconds (\<lambda>c. 0) single_table 8 = [32400] \<and> sorted [32400 :: rat] \<and>
   sum_list (map (\<lambda>(a, b). b - a) (zip [32400] (tl [32400]))) = (0 :: rat) \<and>
   calculate_net_time_from_clocks (\<lambda>c. 0) single_table 8 = None"
proof -
  have cs: "parsed_seconds (\<lambda>c. 0) single_table 8 = [32400]"
    by (simp add: sql_eval single_table_def)
  then have "calculate_net_time_from_clocks (\<lambda>c. 0) single_table 8 = None"
    by (simp add: calculate_net_time_from_clocks_def CALC_NET_TIME_SQL_def)
  with cs show ?thesis by simp
qed

end
